theory Spec2Isabelle
  imports Complex_Main "HOL-Library.Word" "HOL-Library.Sublist"
begin

section \<open>Data model\<close>

text \<open>
  The two scripts \<^verbatim>\<open>chicken-count.js\<close> (COCO-SSD, the generic variant) and
  \<^verbatim>\<open>chicken-count-teachable.js\<close> (Teachable Machine, the binary variant; it exists in a
  German and an English edition that differ in the two class labels only) are embedded as
  functions over an explicit world: the file system, the image decoder and the loaded model
  are fields of a record, every \<^verbatim>\<open>throw\<close> is a value \<open>Inl e\<close>, and a loop is a fold or a
  recursion over the array it walks.

  Numbers. Scores and tensor cells are JavaScript numbers. A \<open>jsnum\<close> is NaN or a number
  \<open>Num v\<close> (the two infinities compare as numbers beyond every finite one, so they are
  among the \<open>Num v\<close>). A tensor cell is a \<open>jsnum\<close>, since reading a byte outside the
  bitmap buffer gives \<^verbatim>\<open>undefined\<close> and \<^verbatim>\<open>undefined / 255\<close> is NaN. The scores of
  the binary variant are read from a \<^verbatim>\<open>Float32Array\<close>, which can hold NaN, and are
  \<open>jsnum\<close>s compared by \<open>js_gt\<close>. The score of a COCO-SSD prediction is a \<open>real\<close>. On
  numbers the comparison \<^verbatim>\<open>></\<close> of the source is the order of the reals, and the
  thresholds \<^verbatim>\<open>0.5\<close> and \<^verbatim>\<open>0.7\<close> separate the same single-precision values as
  \<open>1/2\<close> and \<open>7/10\<close> do.
\<close>

type_synonym byte = "8 word"

datatype jsnum = NaN | Num real

text \<open>\<^verbatim>\<open>a > b\<close> on JavaScript numbers: false as soon as one side is NaN.\<close>

fun js_gt :: "jsnum \<Rightarrow> jsnum \<Rightarrow> bool" where
  "js_gt (Num a) (Num b) = (a > b)"
| "js_gt NaN b = False"
| "js_gt a NaN = False"

datatype error =
    ModelNotLoaded
  | ImageNotFound string
  | DecodeError
  | ShapeError
  | InferenceError
  | ModelLoadError
  | FsError
  | ReduceOfEmptyArray

text \<open>\<^verbatim>\<open>image.bitmap\<close> of Jimp: four bytes (R, G, B, A) per pixel, rows first.\<close>

record bitmap =
  width :: nat
  height :: nat
  data :: "byte list"

record tensor =
  tvalues :: "jsnum list"
  tshape :: "nat list"

text \<open>
  The world outside the scripts. \<open>fround\<close> is the rounding a quotient undergoes when it is
  stored into a \<^verbatim>\<open>Float32Array\<close> cell; \<open>resize_data\<close> is the resampling of Jimp's
  \<^verbatim>\<open>resize\<close>, whose pixel values no claim depends on.
\<close>

record world =
  existsSync :: "string \<Rightarrow> bool"
  jimp_read :: "string \<Rightarrow> error + bitmap"
  lstat_isDirectory :: "string \<Rightarrow> error + bool"
  readdirSync :: "string \<Rightarrow> error + string list"
  path_join :: "string \<Rightarrow> string \<Rightarrow> string"
  fround :: "real \<Rightarrow> real"
  resize_data :: "bitmap \<Rightarrow> nat \<Rightarrow> nat \<Rightarrow> byte list"

text \<open>The detector object: \<^verbatim>\<open>this.model\<close> is \<^verbatim>\<open>null\<close> until \<^verbatim>\<open>loadModel\<close> has run.\<close>

record 'm detector =
  model :: "'m option"

text \<open>What \<^verbatim>\<open>processMultipleImages\<close> pushes, and the counter its summary prints.\<close>

record 'r batch =
  results :: "(string \<times> 'r) list"
  totalChickens :: nat

datatype 'r outcome =
    Usage
  | AccessError error
  | TopLevelError error
  | NoImageFiles
  | BatchDone "'r batch"
  | SingleDone "'r option"

section \<open>Building the tensor\<close>

text \<open>
  \<^verbatim>\<open>image.bitmap.data[i]\<close>: a byte, or \<^verbatim>\<open>undefined\<close> beyond the buffer; and the
  quotient \<^verbatim>\<open>data[i] / 255\<close> as the \<^verbatim>\<open>Float32Array\<close> cell holds it.
\<close>

definition byte_at :: "byte list \<Rightarrow> nat \<Rightarrow> byte option" where
  "byte_at d i = (if i < length d then Some (d ! i) else None)"

definition div255 :: "(real \<Rightarrow> real) \<Rightarrow> byte option \<Rightarrow> jsnum" where
  "div255 f32 v = (case v of None \<Rightarrow> NaN | Some b \<Rightarrow> Num (f32 (real (unat b) / 255)))"

text \<open>
  \<^verbatim>\<open>imageArray[pixelIndex++] = v\<close> on the state (imageArray, pixelIndex). A write beyond
  the end of a typed array is dropped, which is what \<open>list_update\<close> does out of range.
\<close>

definition write_next :: "jsnum \<Rightarrow> jsnum list \<times> nat \<Rightarrow> jsnum list \<times> nat" where
  "write_next v s = ((fst s)[snd s := v], Suc (snd s))"

definition pixel_callback ::
  "(real \<Rightarrow> real) \<Rightarrow> byte list \<Rightarrow> nat \<Rightarrow> jsnum list \<times> nat \<Rightarrow> jsnum list \<times> nat" where
  "pixel_callback f32 d idx s =
     write_next (div255 f32 (byte_at d (idx + 2)))
       (write_next (div255 f32 (byte_at d (idx + 1)))
         (write_next (div255 f32 (byte_at d (idx + 0))) s))"

text \<open>
  Jimp's \<^verbatim>\<open>image.scan(x, y, w, h, f)\<close>: rows from \<open>y\<close>, in each row the columns from
  \<open>x\<close>, and \<open>f\<close> is called with the byte offset of the pixel in the buffer.
\<close>

definition scan ::
  "bitmap \<Rightarrow> nat \<Rightarrow> nat \<Rightarrow> nat \<Rightarrow> nat \<Rightarrow> (nat \<Rightarrow> nat \<Rightarrow> nat \<Rightarrow> 's \<Rightarrow> 's) \<Rightarrow> 's \<Rightarrow> 's" where
  "scan img x y w h f =
     fold (\<lambda>y'. fold (\<lambda>x'. f x' y' (4 * (width img * y' + x'))) [x..<x + w]) [y..<y + h]"

text \<open>
  \<^verbatim>\<open>new Float32Array(width * height * 3)\<close> is zero-filled; the scan fills it. Both
  scripts hold this loop, the binary one on the resized image.
\<close>

definition imageArray_of :: "(real \<Rightarrow> real) \<Rightarrow> bitmap \<Rightarrow> jsnum list" where
  "imageArray_of f32 img =
     (let w = width img; h = height img
      in fst (scan img 0 0 w h (\<lambda>x y idx. pixel_callback f32 (data img) idx)
                (replicate (w * h * 3) (Num 0), 0)))"

text \<open>\<^verbatim>\<open>tf.tensor3d\<close> and \<^verbatim>\<open>tf.tensor4d\<close> refuse values that do not fill the shape.\<close>

definition tensor_of :: "jsnum list \<Rightarrow> nat list \<Rightarrow> error + tensor" where
  "tensor_of vals shp =
     (if prod_list shp = length vals then Inr \<lparr>tvalues = vals, tshape = shp\<rparr> else Inl ShapeError)"

section \<open>The generic variant: chicken-count.js\<close>

text \<open>A COCO-SSD prediction \<^verbatim>\<open>{bbox, class, score}\<close>.\<close>

record prediction =
  bbox :: "real \<times> real \<times> real \<times> real"
  pclass :: string
  score :: real

record detection =
  totalDetections :: nat
  birdDetections :: nat
  allPredictions :: "prediction list"
  birdPredictions :: "prediction list"
  imageSize :: "nat \<times> nat"

type_synonym coco = "tensor \<Rightarrow> error + prediction list"

definition is_bird :: "prediction \<Rightarrow> bool" where
  "is_bird p = (pclass p = ''bird'' \<and> score p > 0.5)"

definition detectChickens :: "world \<Rightarrow> coco detector \<Rightarrow> string \<Rightarrow> error + detection" where
  "detectChickens w d imagePath =
     (case model d of
        None \<Rightarrow> Inl ModelNotLoaded
      | Some m \<Rightarrow>
          if \<not> existsSync w imagePath then Inl (ImageNotFound imagePath)
          else
            (case jimp_read w imagePath of
               Inl e \<Rightarrow> Inl e
             | Inr img \<Rightarrow>
                 (case tensor_of (imageArray_of (fround w) img) [height img, width img, 3] of
                    Inl e \<Rightarrow> Inl e
                  | Inr t \<Rightarrow>
                      (case m t of
                         Inl e \<Rightarrow> Inl e
                       | Inr predictions \<Rightarrow>
                           Inr \<lparr>totalDetections = length predictions,
                                birdDetections = length (filter is_bird predictions),
                                allPredictions = predictions,
                                birdPredictions = filter is_bird predictions,
                                imageSize = (width img, height img)\<rparr>))))"

text \<open>
  \<^verbatim>\<open>processImage\<close> catches whatever \<^verbatim>\<open>detectChickens\<close> throws and returns
  \<^verbatim>\<open>null\<close>; \<^verbatim>\<open>displayResults\<close> only prints.
\<close>

definition processImage :: "world \<Rightarrow> coco detector \<Rightarrow> string \<Rightarrow> detection option" where
  "processImage w d imagePath =
     (case detectChickens w d imagePath of Inl e \<Rightarrow> None | Inr r \<Rightarrow> Some r)"

text \<open>One round of the \<^verbatim>\<open>for\<close> loop of \<^verbatim>\<open>processMultipleImages\<close>.\<close>

definition batch_step :: "world \<Rightarrow> coco detector \<Rightarrow> string \<Rightarrow> detection batch \<Rightarrow> detection batch" where
  "batch_step w d imagePath b =
     (case processImage w d imagePath of
        None \<Rightarrow> b
      | Some r \<Rightarrow> \<lparr>results = results b @ [(imagePath, r)],
                   totalChickens = totalChickens b + birdDetections r\<rparr>)"

definition processMultipleImages :: "world \<Rightarrow> coco detector \<Rightarrow> string list \<Rightarrow> detection batch" where
  "processMultipleImages w d imagePaths =
     fold (batch_step w d) imagePaths \<lparr>results = [], totalChickens = 0\<rparr>"

section \<open>The directory filter\<close>

text \<open>
  \<^verbatim>\<open>/\.(jpe?g|png|bmp|gif)$/i.test(file)\<close>. The pattern is kept as a syntax tree and run by
  a backtracking matcher that returns every rest of the input a match can leave. Under the
  flag \<^verbatim>\<open>i\<close> two characters match when their canonical (upper-case) forms agree; the
  pattern has ASCII letters only, and a character outside ASCII never canonicalises into
  ASCII, so only the ASCII letters are folded here.
\<close>

datatype regex =
    Eps
  | Lit char
  | Seq regex regex
  | Alt regex regex
  | Opt regex
  | EndOfInput

definition canonicalize :: "char \<Rightarrow> char" where
  "canonicalize c =
     (case map_of (zip ''abcdefghijklmnopqrstuvwxyz'' ''ABCDEFGHIJKLMNOPQRSTUVWXYZ'') c of
        Some u \<Rightarrow> u
      | None \<Rightarrow> c)"

fun rx_match :: "regex \<Rightarrow> string \<Rightarrow> string list" where
  "rx_match Eps s = [s]"
| "rx_match (Lit c) s =
     (case s of [] \<Rightarrow> [] | a # t \<Rightarrow> if canonicalize a = canonicalize c then [t] else [])"
| "rx_match (Seq r1 r2) s = concat (map (rx_match r2) (rx_match r1 s))"
| "rx_match (Alt r1 r2) s = rx_match r1 s @ rx_match r2 s"
| "rx_match (Opt r) s = rx_match r s @ [s]"
| "rx_match EndOfInput s = (if s = [] then [s] else [])"

text \<open>\<^verbatim>\<open>test\<close> looks for a match starting at any position of the input.\<close>

definition rx_test :: "regex \<Rightarrow> string \<Rightarrow> bool" where
  "rx_test r s = list_ex (\<lambda>t. rx_match r t \<noteq> []) (suffixes s)"

definition lits :: "string \<Rightarrow> regex" where
  "lits cs = foldr (\<lambda>c r. Seq (Lit c) r) cs Eps"

definition image_regex :: regex where
  "image_regex =
     Seq (Lit CHR ''.'')
       (Seq (Alt (Seq (lits ''jp'') (Seq (Opt (Lit CHR ''e'')) (Lit CHR ''g'')))
              (Alt (lits ''png'') (Alt (lits ''bmp'') (lits ''gif''))))
          EndOfInput)"

text \<open>
  The wording of the specification, to compare the pattern with: the name ends in one of
  the five extensions, letters compared without regard to case.
\<close>

definition image_extensions :: "string list" where
  "image_extensions = [''.jpg'', ''.jpeg'', ''.png'', ''.bmp'', ''.gif'']"

definition ends_with_ci :: "string \<Rightarrow> string \<Rightarrow> bool" where
  "ends_with_ci ext name = suffix (map canonicalize ext) (map canonicalize name)"

definition has_image_extension :: "string \<Rightarrow> bool" where
  "has_image_extension name = list_ex (\<lambda>ext. ends_with_ci ext name) image_extensions"

text \<open>\<^verbatim>\<open>process.argv[i]\<close>, \<^verbatim>\<open>undefined\<close> beyond the arguments given.\<close>

definition argv_at :: "string list \<Rightarrow> nat \<Rightarrow> string option" where
  "argv_at argv i = (if i < length argv then Some (argv ! i) else None)"

definition image_files :: "world \<Rightarrow> string \<Rightarrow> string list \<Rightarrow> string list" where
  "image_files w imagePath entries =
     map (path_join w imagePath) (filter (rx_test image_regex) entries)"

text \<open>
  \<^verbatim>\<open>main\<close> of chicken-count.js. \<open>load\<close> is \<^verbatim>\<open>cocoSsd.load()\<close>; an error of it or
  of \<^verbatim>\<open>readdirSync\<close> reaches the outer \<^verbatim>\<open>catch\<close>. An absent or empty argument
  prints the usage text.
\<close>

definition main :: "world \<Rightarrow> (error + coco) \<Rightarrow> string list \<Rightarrow> detection outcome" where
  "main w load argv =
     (case load of
        Inl e \<Rightarrow> TopLevelError e
      | Inr m \<Rightarrow>
          let d = \<lparr>model = Some m\<rparr> in
          (case argv_at argv 2 of
             None \<Rightarrow> Usage
           | Some imagePath \<Rightarrow>
               if imagePath = [] then Usage
               else
                 (case lstat_isDirectory w imagePath of
                    Inl e \<Rightarrow> AccessError e
                  | Inr isDir \<Rightarrow>
                      if isDir then
                        (case readdirSync w imagePath of
                           Inl e \<Rightarrow> TopLevelError e
                         | Inr entries \<Rightarrow>
                             let files = image_files w imagePath entries in
                             if length files = 0 then NoImageFiles
                             else BatchDone (processMultipleImages w d files))
                      else SingleDone (processImage w d imagePath))))"

section \<open>The binary variant: chicken-count-teachable.js\<close>

text \<open>
  An entry \<^verbatim>\<open>{class, confidence}\<close> of \<^verbatim>\<open>results\<close>, and the object
  \<^verbatim>\<open>detectChickens\<close> returns. The field \<^verbatim>\<open>confidence\<close> of the returned object is
  \<open>bestConfidence\<close> here, its \<^verbatim>\<open>imageSize\<close> is \<open>imageSizeT\<close>.
\<close>

record class_score =
  class_label :: string
  confidence :: jsnum

record classification =
  predictions :: "class_score list"
  bestPrediction :: class_score
  isChicken :: bool
  bestConfidence :: jsnum
  imageSizeT :: "nat \<times> nat"

text \<open>
  The two literals the editions differ in: the array \<^verbatim>\<open>classes\<close> and the label the
  decision compares with.
\<close>

record labels =
  classes :: "string list"
  positive :: string

definition labels_en :: labels where
  "labels_en = \<lparr>classes = [''No Chicken'', ''Chicken''], positive = ''Chicken''\<rparr>"

definition labels_de :: labels where
  "labels_de = \<lparr>classes = [''Kein Huhn'', ''Huhn''], positive = ''Huhn''\<rparr>"

type_synonym layers = "tensor \<Rightarrow> error + jsnum list"

text \<open>The decimal digits of \<open>i\<close> in the template literal \<^verbatim>\<open>`Class ${i}`\<close>.\<close>

fun string_of_nat :: "nat \<Rightarrow> string" where
  "string_of_nat n =
     (if n < 10 then [''0123456789'' ! n]
      else string_of_nat (n div 10) @ [''0123456789'' ! (n mod 10)])"

declare string_of_nat.simps [simp del]

text \<open>
  \<^verbatim>\<open>classes[i] || `Class ${i}`\<close>: the fallback is taken when the index is beyond the
  array and also when the label there is the empty string.
\<close>

definition class_name :: "string list \<Rightarrow> nat \<Rightarrow> string" where
  "class_name cs i =
     (if i < length cs \<and> cs ! i \<noteq> [] then cs ! i else ''Class '' @ string_of_nat i)"

text \<open>The \<^verbatim>\<open>for\<close> loop that pushes one entry per element of \<^verbatim>\<open>predictionData\<close>.\<close>

definition push_result ::
  "string list \<Rightarrow> jsnum list \<Rightarrow> nat \<Rightarrow> class_score list \<Rightarrow> class_score list" where
  "push_result cs predictionData i rs =
     rs @ [\<lparr>class_label = class_name cs i, confidence = predictionData ! i\<rparr>]"

definition pair_results :: "string list \<Rightarrow> jsnum list \<Rightarrow> class_score list" where
  "pair_results cs predictionData =
     fold (push_result cs predictionData) [0..<length predictionData] []"

text \<open>
  \<^verbatim>\<open>Array.prototype.reduce\<close> without an initial value: a TypeError on the empty array,
  otherwise the first element is the first accumulator.
\<close>

fun reduce :: "('a \<Rightarrow> 'a \<Rightarrow> 'a) \<Rightarrow> 'a list \<Rightarrow> error + 'a" where
  "reduce f [] = Inl ReduceOfEmptyArray"
| "reduce f (x # xs) = Inr (foldl f x xs)"

text \<open>
  The callback of the reduction,
  \<^verbatim>\<open>(prev.confidence > current.confidence) ? prev : current\<close>: the current entry is
  returned unless the previous one is strictly greater, so also on equal scores and when
  one of the two scores is NaN.
\<close>

definition better :: "class_score \<Rightarrow> class_score \<Rightarrow> class_score" where
  "better prev current =
     (if js_gt (confidence prev) (confidence current) then prev else current)"

text \<open>
  Jimp images are mutable objects. \<^verbatim>\<open>image.resize(w, h)\<close> belongs to the library, not
  to the scripts: it replaces the bitmap of the image it is called on and returns that same
  image (to keep the original one calls \<^verbatim>\<open>clone()\<close> first, which the script does
  not). So the two names \<^verbatim>\<open>image\<close> and \<^verbatim>\<open>resized\<close> of the script must be
  references, not values. The store holds the bitmaps of the images alive in one call of
  \<^verbatim>\<open>detectChickens\<close>; a reference is an index into it, handed out by
  \<open>new_image\<close> only, so every read is in range. No reference leaves the call: the
  returned object holds numbers and strings.
\<close>

type_synonym store = "bitmap list"

definition new_image :: "bitmap \<Rightarrow> store \<Rightarrow> nat \<times> store" where
  "new_image b st = (length st, st @ [b])"

definition bitmap_of :: "store \<Rightarrow> nat \<Rightarrow> bitmap" where
  "bitmap_of st r = st ! r"

definition resize :: "world \<Rightarrow> nat \<Rightarrow> nat \<Rightarrow> nat \<Rightarrow> store \<Rightarrow> nat \<times> store" where
  "resize w r tw th st =
     (r, st[r := \<lparr>width = tw, height = th, data = resize_data w (bitmap_of st r) tw th\<rparr>])"

definition detectChickensT ::
  "labels \<Rightarrow> world \<Rightarrow> layers detector \<Rightarrow> string \<Rightarrow> error + classification" where
  "detectChickensT cfg w d imagePath =
     (case model d of
        None \<Rightarrow> Inl ModelNotLoaded
      | Some m \<Rightarrow>
          if \<not> existsSync w imagePath then Inl (ImageNotFound imagePath)
          else
            (case jimp_read w imagePath of
               Inl e \<Rightarrow> Inl e
             | Inr loaded \<Rightarrow>
                 let (image, st1) = new_image loaded [];
                     (resized, st2) = resize w image 224 224 st1;
                     width' = width (bitmap_of st2 resized);
                     height' = height (bitmap_of st2 resized)
                 in
                 (case tensor_of (imageArray_of (fround w) (bitmap_of st2 resized))
                         [1, height', width', 3] of
                    Inl e \<Rightarrow> Inl e
                  | Inr t \<Rightarrow>
                      (case m t of
                         Inl e \<Rightarrow> Inl e
                       | Inr predictionData \<Rightarrow>
                           (case reduce better (pair_results (classes cfg) predictionData) of
                              Inl e \<Rightarrow> Inl e
                            | Inr best \<Rightarrow>
                                Inr \<lparr>predictions = pair_results (classes cfg) predictionData,
                                     bestPrediction = best,
                                     isChicken = (class_label best = positive cfg
                                                  \<and> js_gt (confidence best) (Num 0.7)),
                                     bestConfidence = confidence best,
                                     imageSizeT = (width (bitmap_of st2 image),
                                                   height (bitmap_of st2 image))\<rparr>)))))"

definition processImageT ::
  "labels \<Rightarrow> world \<Rightarrow> layers detector \<Rightarrow> string \<Rightarrow> classification option" where
  "processImageT cfg w d imagePath =
     (case detectChickensT cfg w d imagePath of Inl e \<Rightarrow> None | Inr r \<Rightarrow> Some r)"

definition batch_stepT ::
  "labels \<Rightarrow> world \<Rightarrow> layers detector \<Rightarrow> string \<Rightarrow> classification batch \<Rightarrow> classification batch" where
  "batch_stepT cfg w d imagePath b =
     (case processImageT cfg w d imagePath of
        None \<Rightarrow> b
      | Some r \<Rightarrow> \<lparr>results = results b @ [(imagePath, r)],
                   totalChickens = (if isChicken r then totalChickens b + 1 else totalChickens b)\<rparr>)"

definition processMultipleImagesT ::
  "labels \<Rightarrow> world \<Rightarrow> layers detector \<Rightarrow> string list \<Rightarrow> classification batch" where
  "processMultipleImagesT cfg w d imagePaths =
     fold (batch_stepT cfg w d) imagePaths \<lparr>results = [], totalChickens = 0\<rparr>"

text \<open>
  \<^verbatim>\<open>main\<close> of chicken-count-teachable.js; \<open>load\<close> is \<^verbatim>\<open>tf.loadLayersModel\<close>, called
  with \<^verbatim>\<open>process.argv[3] || './model/model.json'\<close>.
\<close>

definition model_url :: "string list \<Rightarrow> string" where
  "model_url argv =
     (case argv_at argv 3 of
        None \<Rightarrow> ''./model/model.json''
      | Some u \<Rightarrow> if u = [] then ''./model/model.json'' else u)"

definition mainT ::
  "labels \<Rightarrow> world \<Rightarrow> (string \<Rightarrow> error + layers) \<Rightarrow> string list \<Rightarrow> classification outcome" where
  "mainT cfg w load argv =
     (case load (model_url argv) of
        Inl e \<Rightarrow> TopLevelError e
      | Inr m \<Rightarrow>
          let d = \<lparr>model = Some m\<rparr> in
          (case argv_at argv 2 of
             None \<Rightarrow> Usage
           | Some imagePath \<Rightarrow>
               if imagePath = [] then Usage
               else
                 (case lstat_isDirectory w imagePath of
                    Inl e \<Rightarrow> AccessError e
                  | Inr isDir \<Rightarrow>
                      if isDir then
                        (case readdirSync w imagePath of
                           Inl e \<Rightarrow> TopLevelError e
                         | Inr entries \<Rightarrow>
                             let files = image_files w imagePath entries in
                             if length files = 0 then NoImageFiles
                             else BatchDone (processMultipleImagesT cfg w d files))
                      else SingleDone (processImageT cfg w d imagePath))))"

section \<open>Auxiliary definitions and concrete inputs\<close>

text \<open>
  The three cells one call of the scan's callback writes, and the byte offsets the scan
  passes, in the order it passes them.
\<close>

definition rgb :: "(real \<Rightarrow> real) \<Rightarrow> byte list \<Rightarrow> nat \<Rightarrow> jsnum list" where
  "rgb f32 d idx =
     [div255 f32 (byte_at d idx), div255 f32 (byte_at d (idx + 1)),
      div255 f32 (byte_at d (idx + 2))]"

definition offsets :: "nat \<Rightarrow> nat \<Rightarrow> nat list" where
  "offsets w h = map (\<lambda>(y, x). 4 * (w * y + x)) (List.product [0..<h] [0..<w])"

text \<open>A store that keeps the quotient as it is, and a bitmap of two pixels in one row.\<close>

definition exact :: "real \<Rightarrow> real" where
  "exact v = v"

definition tiny_bitmap :: bitmap where
  "tiny_bitmap = \<lparr>width = 2, height = 1, data = [255, 0, 128, 255, 1, 2, 3, 255]\<rparr>"

text \<open>
  Concrete inputs. A COCO-SSD model that answers every tensor with two birds above the
  threshold and one person, a world with one directory, and the result the generic script
  computes there.
\<close>

definition bird_a :: prediction where
  "bird_a = \<lparr>bbox = (120, 200, 180, 240), pclass = ''bird'', score = 0.873\<rparr>"

definition bird_b :: prediction where
  "bird_b = \<lparr>bbox = (450, 180, 150, 200), pclass = ''bird'', score = 0.765\<rparr>"

definition person_c :: prediction where
  "person_c = \<lparr>bbox = (10, 20, 90, 300), pclass = ''person'', score = 0.652\<rparr>"

definition scenario_coco :: coco where
  "scenario_coco t = Inr [bird_a, bird_b, person_c]"

definition demo_detector :: "coco detector" where
  "demo_detector = \<lparr>model = Some scenario_coco\<rparr>"

definition demo_world :: world where
  "demo_world =
     \<lparr>existsSync = (\<lambda>p. p \<noteq> ''photos/missing.jpg''),
      jimp_read = (\<lambda>p. if p = ''photos/notes.png'' then Inl DecodeError else Inr tiny_bitmap),
      lstat_isDirectory = (\<lambda>p. Inr (p = ''photos'' \<or> p = ''docs'')),
      readdirSync = (\<lambda>p. if p = ''photos'' then Inr [''a.JPG'', ''readme.txt'', ''notes.png'']
                         else Inr [''readme.txt'', ''jpg'', ''old.jpg.bak'']),
      path_join = (\<lambda>dir file. dir @ ''/'' @ file),
      fround = exact,
      resize_data = (\<lambda>b tw th. replicate (4 * tw * th) 0)\<rparr>"

definition scenario_a :: detection where
  "scenario_a =
     \<lparr>totalDetections = 3, birdDetections = 2,
      allPredictions = [bird_a, bird_b, person_c],
      birdPredictions = [bird_a, bird_b],
      imageSize = (2, 1)\<rparr>"

text \<open>
  The specification's count of positive images in the generic variant: the results whose
  filtered count is above zero.
\<close>

definition positive_count :: "detection list \<Rightarrow> nat" where
  "positive_count rs = length (filter (\<lambda>r. birdDetections r > 0) rs)"

text \<open>The entries a batch keeps: the paths whose processing returned a result, with it.\<close>

definition succeeded :: "(string \<Rightarrow> 'r option) \<Rightarrow> string list \<Rightarrow> (string \<times> 'r) list" where
  "succeeded f ps = map (\<lambda>p. (p, the (f p))) (filter (\<lambda>p. f p \<noteq> None) ps)"

text \<open>
  Reading a decimal numeral back, to say what the digits of \<open>string_of_nat\<close> are.
\<close>

definition digit_value :: "char \<Rightarrow> nat" where
  "digit_value c = of_char c - 48"

definition decimal_value :: "string \<Rightarrow> nat" where
  "decimal_value s = foldl (\<lambda>a c. 10 * a + digit_value c) 0 s"

text \<open>
  The image the binary script scans (the loaded image after \<^verbatim>\<open>resize(224, 224)\<close>), the
  tensor it hands to the model, and what it makes of the model's scores.
\<close>

definition resizedT :: "world \<Rightarrow> bitmap \<Rightarrow> bitmap" where
  "resizedT w img = \<lparr>width = 224, height = 224, data = resize_data w img 224 224\<rparr>"

definition tensorT :: "world \<Rightarrow> bitmap \<Rightarrow> tensor" where
  "tensorT w img =
     \<lparr>tvalues = imageArray_of (fround w) (resizedT w img), tshape = [1, 224, 224, 3]\<rparr>"

definition interpretT :: "labels \<Rightarrow> jsnum list \<Rightarrow> error + classification" where
  "interpretT cfg predictionData =
     (case reduce better (pair_results (classes cfg) predictionData) of
        Inl e \<Rightarrow> Inl e
      | Inr best \<Rightarrow>
          Inr \<lparr>predictions = pair_results (classes cfg) predictionData,
               bestPrediction = best,
               isChicken = (class_label best = positive cfg
                            \<and> js_gt (confidence best) (Num 0.7)),
               bestConfidence = confidence best,
               imageSizeT = (224, 224)\<rparr>)"

text \<open>
  Concrete inputs for the binary script: models that answer every tensor with the scores
  of the README's example, with two equal scores, with a NaN between two numbers, with
  the first label ahead, and with none; a world whose decoder
  yields a photo of 800 by 600 pixels, as in that example; and the results the script
  computes there.
\<close>

definition scenario_layers :: layers where
  "scenario_layers t = Inr [Num 0.152, Num 0.848]"

definition tie_layers :: layers where
  "tie_layers t = Inr [Num 0.5, Num 0.5]"

definition nan_layers :: layers where
  "nan_layers t = Inr [Num 0.875, NaN, Num 0.125]"

definition low_layers :: layers where
  "low_layers t = Inr [Num 0.9, Num 0.1]"

definition empty_layers :: layers where
  "empty_layers t = Inr []"

definition photo_data :: "byte list" where
  "photo_data = replicate (4 * 800 * 600) 0"

definition photo_bitmap :: bitmap where
  "photo_bitmap = \<lparr>width = 800, height = 600, data = photo_data\<rparr>"

definition photo_world :: world where
  "photo_world = demo_world\<lparr>jimp_read := (\<lambda>p. Inr photo_bitmap)\<rparr>"

definition scenario_b :: classification where
  "scenario_b =
     \<lparr>predictions = [\<lparr>class_label = ''No Chicken'', confidence = Num 0.152\<rparr>,
                     \<lparr>class_label = ''Chicken'', confidence = Num 0.848\<rparr>],
      bestPrediction = \<lparr>class_label = ''Chicken'', confidence = Num 0.848\<rparr>,
      isChicken = True,
      bestConfidence = Num 0.848,
      imageSizeT = (224, 224)\<rparr>"

definition tie_result :: classification where
  "tie_result =
     \<lparr>predictions = [\<lparr>class_label = ''No Chicken'', confidence = Num 0.5\<rparr>,
                     \<lparr>class_label = ''Chicken'', confidence = Num 0.5\<rparr>],
      bestPrediction = \<lparr>class_label = ''Chicken'', confidence = Num 0.5\<rparr>,
      isChicken = False,
      bestConfidence = Num 0.5,
      imageSizeT = (224, 224)\<rparr>"

definition nan_result :: classification where
  "nan_result =
     \<lparr>predictions = [\<lparr>class_label = ''No Chicken'', confidence = Num 0.875\<rparr>,
                     \<lparr>class_label = ''Chicken'', confidence = NaN\<rparr>,
                     \<lparr>class_label = ''Class 2'', confidence = Num 0.125\<rparr>],
      bestPrediction = \<lparr>class_label = ''Class 2'', confidence = Num 0.125\<rparr>,
      isChicken = False,
      bestConfidence = Num 0.125,
      imageSizeT = (224, 224)\<rparr>"

definition low_result :: classification where
  "low_result =
     \<lparr>predictions = [\<lparr>class_label = ''No Chicken'', confidence = Num 0.9\<rparr>,
                     \<lparr>class_label = ''Chicken'', confidence = Num 0.1\<rparr>],
      bestPrediction = \<lparr>class_label = ''No Chicken'', confidence = Num 0.9\<rparr>,
      isChicken = False,
      bestConfidence = Num 0.9,
      imageSizeT = (224, 224)\<rparr>"

text \<open>The part of the pattern after the dot: the alternatives, then the end of the input.\<close>

definition extension_regex :: regex where
  "extension_regex =
     Seq (Alt (Seq (lits ''jp'') (Seq (Opt (Lit CHR ''e'')) (Lit CHR ''g'')))
            (Alt (lits ''png'') (Alt (lits ''bmp'') (lits ''gif''))))
       EndOfInput"

section \<open>The tensor is the normalised pixel data\<close>

lemma three_updates:
  assumes "p + 3 \<le> length arr"
  shows "arr[p := a, Suc p := b, Suc (Suc p) := c] = take p arr @ [a, b, c] @ drop (p + 3) arr"
proof (rule nth_equalityI)
  show "length (arr[p := a, Suc p := b, Suc (Suc p) := c]) = length (take p arr @ [a, b, c] @ drop (p + 3) arr)"
    using assms by simp
next
  fix i assume "i < length (arr[p := a, Suc p := b, Suc (Suc p) := c])"
  then have i: "i < length arr" by simp
  consider "i < p" | "i = p" | "i = Suc p" | "i = Suc (Suc p)" | "p + 3 \<le> i" by linarith
  then show "arr[p := a, Suc p := b, Suc (Suc p) := c] ! i = (take p arr @ [a, b, c] @ drop (p + 3) arr) ! i"
  proof cases
    case 5
    then obtain k where k: "i = p + 3 + k" using le_Suc_ex by blast
    show ?thesis using assms i unfolding k
      by (simp add: nth_append)
  qed (use assms i in \<open>auto simp: nth_append\<close>)
qed

lemma pixel_callback_block:
  assumes "p + 3 \<le> length arr"
  shows "pixel_callback f32 d idx (arr, p) = (take p arr @ rgb f32 d idx @ drop (p + 3) arr, p + 3)"
  using three_updates[OF assms]
  by (simp add: pixel_callback_def write_next_def rgb_def)

lemma fold_pixel_callback:
  "p + 3 * length idxs \<le> length arr \<Longrightarrow>
   fold (pixel_callback f32 d) idxs (arr, p) =
     (take p arr @ concat (map (rgb f32 d) idxs) @ drop (p + 3 * length idxs) arr, p + 3 * length idxs)"
proof (induction idxs arbitrary: arr p)
  case Nil
  then show ?case by simp
next
  case (Cons i idxs)
  have len: "length (rgb f32 d i) = 3" by (simp add: rgb_def)
  from Cons.prems have p3: "p + 3 \<le> length arr" by simp
  let ?arr = "take p arr @ rgb f32 d i @ drop (p + 3) arr"
  have la: "length ?arr = length arr" using p3 by (simp add: len)
  have step: "(p + 3) + 3 * length idxs \<le> length ?arr" using Cons.prems la by simp
  have t: "take (p + 3) ?arr = take p arr @ rgb f32 d i" using p3 by (simp add: len)
  have dr: "drop (p + 3 + 3 * length idxs) ?arr = drop (p + 3 * length (i # idxs)) arr"
  proof -
    have e: "3 * length idxs + (p + 3) = p + (3 + 3 * length idxs)" by simp
    show ?thesis using p3 by (simp add: len min_absorb2 e)
  qed
  show ?case
    using Cons.IH[OF step] t dr by (simp add: pixel_callback_block[OF p3])
qed

lemma fold_rows:
  "fold (\<lambda>y. fold (g y) xs) ys = fold (\<lambda>(y, x). g y x) (List.product ys xs)"
proof (induction ys)
  case Nil
  show ?case by simp
next
  case (Cons y ys)
  have "fold (\<lambda>(y', x). g y' x) (map (Pair y) xs) = fold (g y) xs"
    by (simp add: fold_map comp_def)
  with Cons show ?case by (simp add: fun_eq_iff)
qed

lemma concat_rgb_nth:
  "i < length idxs \<Longrightarrow> c < 3 \<Longrightarrow>
   concat (map (rgb f32 d) idxs) ! (3 * i + c) = div255 f32 (byte_at d (idxs ! i + c))"
proof (induction idxs arbitrary: i)
  case Nil
  then show ?case by simp
next
  case (Cons a idxs)
  have len: "length (rgb f32 d a) = 3" by (simp add: rgb_def)
  show ?case
  proof (cases i)
    case 0
    from \<open>c < 3\<close> consider "c = 0" | "c = 1" | "c = 2" by linarith
    then show ?thesis using 0 by cases (simp_all add: rgb_def)
  next
    case (Suc j)
    then have j: "j < length idxs" using Cons.prems by simp
    have "3 * i + c = 3 + (3 * j + c)" using Suc by simp
    then show ?thesis using Cons.IH[OF j \<open>c < 3\<close>] Suc
      by (simp add: nth_append len del: One_nat_def)
  qed
qed

lemma scan_offsets:
  "scan img 0 0 (width img) h (\<lambda>x y idx. pixel_callback f32 d idx) =
   fold (pixel_callback f32 d) (offsets (width img) h)"
proof -
  have "scan img 0 0 (width img) h (\<lambda>x y idx. pixel_callback f32 d idx) =
        fold (\<lambda>(y, x). pixel_callback f32 d (4 * (width img * y + x)))
          (List.product [0..<h] [0..<width img])"
    unfolding scan_def by (simp only: fold_rows add_0)
  also have "\<dots> = fold (pixel_callback f32 d) (offsets (width img) h)"
    unfolding offsets_def fold_map by (simp only: comp_def case_prod_unfold)
  finally show ?thesis .
qed

lemma imageArray_of_concat:
  "imageArray_of f32 img = concat (map (rgb f32 (data img)) (offsets (width img) (height img)))"
proof -
  let ?w = "width img" and ?h = "height img"
  have l: "0 + 3 * length (offsets ?w ?h) \<le> length (replicate (?w * ?h * 3) (Num 0))"
    by (simp add: offsets_def)
  have "length (offsets ?w ?h) * 3 = ?w * ?h * 3"
    by (simp add: offsets_def mult.commute)
  then show ?thesis
    unfolding imageArray_of_def Let_def scan_offsets fold_pixel_callback[OF l]
    by (simp add: mult.commute)
qed

lemma offsets_nth:
  assumes "y < h" "x < w"
  shows "offsets w h ! (w * y + x) = 4 * (w * y + x)"
proof -
  have lt: "w * y + x < h * w"
  proof -
    have "w * y + x < w * y + w" using assms by simp
    also have "\<dots> = w * Suc y" by simp
    also have "\<dots> \<le> w * h" using assms by (intro mult_le_mono2) simp
    finally show ?thesis by (simp add: mult.commute)
  qed
  have dm: "(w * y + x) div w = y" "(w * y + x) mod w = x" using assms by simp_all
  show ?thesis
    using lt by (simp add: offsets_def product_nth dm assms)
qed


lemma offset_in_buffer: "i < n \<Longrightarrow> c < 3 \<Longrightarrow> 4 * i + c < 4 * (n::nat)"
  by arith

lemma byte_quotient_bounds: "n < 256 \<Longrightarrow> 0 \<le> real n / 255 \<and> real n / 255 \<le> 1"
  by simp

lemma length_imageArray_of:
  "length (imageArray_of f32 img) = width img * height img * 3"
proof -
  have "length (rgb f32 (data img) i) = 3" for i by (simp add: rgb_def)
  then show ?thesis
    by (simp add: imageArray_of_concat length_concat comp_def offsets_def sum_list_triv mult.commute)
qed

text \<open>
  C5. For a bitmap whose buffer holds at least four bytes per pixel, the array the scan
  fills has height * width * 3 cells; the cell of pixel (x, y) and channel c < 3 is byte
  c of that pixel (the alpha byte is skipped) divided by 255 and stored; the pixels come
  row by row; and every cell is a number between 0 and 1. The store's rounding is any
  monotone map that keeps 0 and 1, as the rounding to single precision is.
\<close>

theorem imageArray_of_normalised:
  assumes buf: "4 * width img * height img \<le> length (data img)"
    and mono: "\<forall>a b. a \<le> b \<longrightarrow> f32 a \<le> f32 b"
    and f0: "f32 0 = 0" and f1: "f32 1 = 1"
  shows "length (imageArray_of f32 img) = height img * width img * 3
    \<and> (\<forall>y < height img. \<forall>x < width img. \<forall>c < 3.
          imageArray_of f32 img ! (3 * (width img * y + x) + c)
            = Num (f32 (real (unat (data img ! (4 * (width img * y + x) + c))) / 255)))
    \<and> (\<forall>e \<in> set (imageArray_of f32 img). \<exists>v. e = Num v \<and> 0 \<le> v \<and> v \<le> 1)"
proof (intro conjI allI impI ballI)
  show "length (imageArray_of f32 img) = height img * width img * 3"
    by (simp add: length_imageArray_of mult.commute)
next
  fix y x c assume y: "y < height img" and x: "x < width img" and c: "c < (3::nat)"
  let ?w = "width img" and ?h = "height img"
  have lt: "?w * y + x < ?w * ?h"
  proof -
    have "?w * y + x < ?w * Suc y" using x by simp
    also have "\<dots> \<le> ?w * ?h" using y by (intro mult_le_mono2) simp
    finally show ?thesis .
  qed
  then have i: "?w * y + x < length (offsets ?w ?h)" by (simp add: offsets_def mult.commute)
  have inb: "4 * (?w * y + x) + c < length (data img)"
  proof -
    have "4 * (?w * y + x) + c < 4 * (?w * ?h)" using lt c by (rule offset_in_buffer)
    then show ?thesis using buf by (simp add: mult.assoc)
  qed
  show "imageArray_of f32 img ! (3 * (?w * y + x) + c)
          = Num (f32 (real (unat (data img ! (4 * (?w * y + x) + c))) / 255))"
    unfolding imageArray_of_concat concat_rgb_nth[OF i c] offsets_nth[OF y x]
    using inb by (simp add: div255_def byte_at_def)
next
  fix e assume "e \<in> set (imageArray_of f32 img)"
  then obtain k where k: "k < length (imageArray_of f32 img)" and e: "e = imageArray_of f32 img ! k"
    by (auto simp: in_set_conv_nth)
  let ?w = "width img" and ?h = "height img"
  have k3: "k < ?w * ?h * 3" using k by (simp add: length_imageArray_of)
  define i where "i = k div 3"
  define c where "c = k mod 3"
  have kk: "k = 3 * i + c" and c: "c < 3" by (simp_all add: i_def c_def)
  have ilt: "i < ?w * ?h" using k3 kk by linarith
  have w0: "0 < ?w" using ilt by (cases "?w") auto
  define y where "y = i div ?w"
  define x where "x = i mod ?w"
  have ii: "i = ?w * y + x" and x: "x < ?w" using w0 by (simp_all add: y_def x_def)
  have y: "y < ?h" using ilt w0 unfolding y_def by (simp add: less_mult_imp_div_less mult.commute)
  have il: "i < length (offsets ?w ?h)" using ilt by (simp add: offsets_def mult.commute)
  have inb: "4 * (?w * y + x) + c < length (data img)"
  proof -
    have "4 * i + c < 4 * (?w * ?h)" using ilt c by (rule offset_in_buffer)
    then show ?thesis using buf ii by (simp add: mult.assoc)
  qed
  define b where "b = data img ! (4 * (?w * y + x) + c)"
  have val: "e = Num (f32 (real (unat b) / 255))"
    unfolding e kk imageArray_of_concat concat_rgb_nth[OF il c]
    unfolding ii offsets_nth[OF y x] b_def
    using inb by (simp add: div255_def byte_at_def)
  have "unat b < 256" using unsigned_less[of b, where ?'a = nat] by simp
  then have r: "0 \<le> real (unat b) / 255" "real (unat b) / 255 \<le> 1"
    by (rule byte_quotient_bounds[THEN conjunct1], rule byte_quotient_bounds[THEN conjunct2])
  have "f32 0 \<le> f32 (real (unat b) / 255)" "f32 (real (unat b) / 255) \<le> f32 1"
    using mono r by blast+
  then show "\<exists>v. e = Num v \<and> 0 \<le> v \<and> v \<le> 1" using val f0 f1 by simp
qed


theorem imageArray_of_normalised_witness:
  "4 * width tiny_bitmap * height tiny_bitmap \<le> length (data tiny_bitmap)
   \<and> exact 0 = 0 \<and> exact 1 = 1
   \<and> length (imageArray_of exact tiny_bitmap) = 6
   \<and> imageArray_of exact tiny_bitmap ! 3 = Num (1 / 255)
   \<and> imageArray_of exact tiny_bitmap ! 5 = Num (3 / 255)"
proof -
  have buf: "4 * width tiny_bitmap * height tiny_bitmap \<le> length (data tiny_bitmap)"
    by (simp add: tiny_bitmap_def)
  have mono: "\<forall>a b. a \<le> b \<longrightarrow> exact a \<le> exact b"
    by (simp add: exact_def)
  have f0: "exact 0 = 0" and f1: "exact 1 = 1"
    by (simp_all add: exact_def)
  note t = imageArray_of_normalised[OF buf mono f0 f1]
  have len: "length (imageArray_of exact tiny_bitmap) = 6"
    using t by (simp add: tiny_bitmap_def)
  have h: "0 < height tiny_bitmap" and w0: "0 < width tiny_bitmap" and w1: "1 < width tiny_bitmap"
    by (simp_all add: tiny_bitmap_def)
  note cell = t[THEN conjunct2, THEN conjunct1, rule_format]
  have c3: "imageArray_of exact tiny_bitmap ! 3 = Num (1 / 255)"
    using cell[OF h w1, of 0] by (simp add: tiny_bitmap_def exact_def)
  have c2: "imageArray_of exact tiny_bitmap ! 5 = Num (3 / 255)"
    using cell[OF h w1, of 2] by (simp add: tiny_bitmap_def exact_def)
  show ?thesis using buf f0 f1 len c3 c2 by simp
qed

section \<open>The generic interpreter\<close>

lemma detectChickens_a:
  "detectChickens demo_world demo_detector ''photos/a.JPG'' = Inr scenario_a"
  by (simp add: detectChickens_def demo_world_def demo_detector_def scenario_coco_def
      tensor_of_def length_imageArray_of tiny_bitmap_def scenario_a_def is_bird_def
      bird_a_def bird_b_def person_c_def)

lemma detectChickens_missing:
  "detectChickens demo_world demo_detector ''photos/missing.jpg'' = Inl (ImageNotFound ''photos/missing.jpg'')"
  by (simp add: detectChickens_def demo_world_def demo_detector_def)





section \<open>Batches\<close>

lemma succeeded_Cons:
  "succeeded f (p # ps) = (case f p of None \<Rightarrow> succeeded f ps | Some r \<Rightarrow> (p, r) # succeeded f ps)"
  by (simp add: succeeded_def split: option.split)

lemma batch_step_None: "processImage w d p = None \<Longrightarrow> batch_step w d p b = b"
  by (simp add: batch_step_def)

lemma batch_step_Some:
  "processImage w d p = Some r \<Longrightarrow>
   batch_step w d p b = \<lparr>results = results b @ [(p, r)],
                         totalChickens = totalChickens b + birdDetections r\<rparr>"
  by (simp add: batch_step_def)

lemma fold_batch_step:
  "fold (batch_step w d) ps b =
     \<lparr>results = results b @ succeeded (processImage w d) ps,
      totalChickens = totalChickens b
        + sum_list (map (\<lambda>e. birdDetections (snd e)) (succeeded (processImage w d) ps))\<rparr>"
proof (induction ps arbitrary: b)
  case Nil
  show ?case by (simp add: succeeded_def)
next
  case (Cons p ps)
  have step: "fold (batch_step w d) (p # ps) b = fold (batch_step w d) ps (batch_step w d p b)"
    by simp
  show ?case
  proof (cases "processImage w d p")
    case None
    show ?thesis unfolding step batch_step_None[OF None] Cons.IH
      by (simp add: succeeded_Cons None)
  next
    case (Some r)
    show ?thesis unfolding step batch_step_Some[OF Some] Cons.IH
      by (simp add: succeeded_Cons Some)
  qed
qed

lemma batch_stepT_None: "processImageT cfg w d p = None \<Longrightarrow> batch_stepT cfg w d p b = b"
  by (simp add: batch_stepT_def)

lemma batch_stepT_Some:
  "processImageT cfg w d p = Some r \<Longrightarrow>
   batch_stepT cfg w d p b =
     \<lparr>results = results b @ [(p, r)],
      totalChickens = (if isChicken r then totalChickens b + 1 else totalChickens b)\<rparr>"
  by (simp add: batch_stepT_def)

lemma fold_batch_stepT:
  "fold (batch_stepT cfg w d) ps b =
     \<lparr>results = results b @ succeeded (processImageT cfg w d) ps,
      totalChickens = totalChickens b
        + length (filter (\<lambda>e. isChicken (snd e)) (succeeded (processImageT cfg w d) ps))\<rparr>"
proof (induction ps arbitrary: b)
  case Nil
  show ?case by (simp add: succeeded_def)
next
  case (Cons p ps)
  have step: "fold (batch_stepT cfg w d) (p # ps) b
                = fold (batch_stepT cfg w d) ps (batch_stepT cfg w d p b)"
    by simp
  show ?case
  proof (cases "processImageT cfg w d p")
    case None
    show ?thesis unfolding step batch_stepT_None[OF None] Cons.IH
      by (simp add: succeeded_Cons None)
  next
    case (Some r)
    show ?thesis unfolding step batch_stepT_Some[OF Some] Cons.IH
      by (simp add: succeeded_Cons Some)
  qed
qed

lemma results_processMultipleImages:
  "results (processMultipleImages w d ps) = succeeded (processImage w d) ps"
  by (simp add: processMultipleImages_def fold_batch_step)

lemma results_processMultipleImagesT:
  "results (processMultipleImagesT cfg w d ps) = succeeded (processImageT cfg w d) ps"
  by (simp add: processMultipleImagesT_def fold_batch_stepT)

lemma total_processMultipleImages:
  "totalChickens (processMultipleImages w d ps)
     = sum_list (map (\<lambda>e. birdDetections (snd e)) (succeeded (processImage w d) ps))"
  by (simp add: processMultipleImages_def fold_batch_step)

lemma total_processMultipleImagesT:
  "totalChickens (processMultipleImagesT cfg w d ps)
     = length (filter (\<lambda>e. isChicken (snd e)) (succeeded (processImageT cfg w d) ps))"
  by (simp add: processMultipleImagesT_def fold_batch_stepT)

lemma map_fst_succeeded: "map fst (succeeded f ps) = filter (\<lambda>p. f p \<noteq> None) ps"
  by (simp add: succeeded_def comp_def)

lemma length_succeeded:
  "length (succeeded f ps) + length (filter (\<lambda>p. f p = None) ps) = length ps"
  using sum_length_filter_compl[of "\<lambda>p. f p \<noteq> None" ps] by (simp add: succeeded_def)

lemma positive_le_sum:
  fixes f :: "'a \<Rightarrow> nat"
  shows "length (filter (\<lambda>r. f r > 0) rs) \<le> sum_list (map f rs)"
  by (induction rs) simp_all

lemma processImage_a:
  "processImage demo_world demo_detector ''photos/a.JPG'' = Some scenario_a"
  by (simp add: processImage_def detectChickens_a)

lemma processImage_missing:
  "processImage demo_world demo_detector ''photos/missing.jpg'' = None"
  by (simp add: processImage_def detectChickens_missing)

text \<open>
  C1 (amended). The counter a batch reports is, in the generic variant, the sum of the
  filtered counts of the images that were processed, which is at least the number of
  images with a filtered count above zero; in the binary variant it is the number of
  processed images whose decision is true, hence at most the number of processed images.
  The results are those of the paths whose processing did not fail.
\<close>

theorem totalChickens_counts:
  "totalChickens (processMultipleImages w d ps)
     = sum_list (map (\<lambda>e. birdDetections (snd e)) (results (processMultipleImages w d ps)))
   \<and> positive_count (map snd (results (processMultipleImages w d ps)))
       \<le> totalChickens (processMultipleImages w d ps)
   \<and> map snd (results (processMultipleImages w d ps))
       = map (\<lambda>p. the (processImage w d p)) (filter (\<lambda>p. processImage w d p \<noteq> None) ps)
   \<and> totalChickens (processMultipleImagesT cfg w' d' ps')
       = length (filter (\<lambda>e. isChicken (snd e)) (results (processMultipleImagesT cfg w' d' ps')))
   \<and> totalChickens (processMultipleImagesT cfg w' d' ps')
       \<le> length (results (processMultipleImagesT cfg w' d' ps'))
   \<and> map snd (results (processMultipleImagesT cfg w' d' ps'))
       = map (\<lambda>p. the (processImageT cfg w' d' p))
           (filter (\<lambda>p. processImageT cfg w' d' p \<noteq> None) ps')"
proof -
  have 1: "totalChickens (processMultipleImages w d ps)
     = sum_list (map (\<lambda>e. birdDetections (snd e)) (results (processMultipleImages w d ps)))"
    by (simp only: total_processMultipleImages results_processMultipleImages)
  have 2: "positive_count (map snd (results (processMultipleImages w d ps)))
       \<le> totalChickens (processMultipleImages w d ps)"
    unfolding 1 positive_count_def
    using positive_le_sum[of birdDetections "map snd (results (processMultipleImages w d ps))"]
    by (simp add: comp_def)
  have 3: "map snd (results (processMultipleImages w d ps))
       = map (\<lambda>p. the (processImage w d p)) (filter (\<lambda>p. processImage w d p \<noteq> None) ps)"
    by (simp add: results_processMultipleImages succeeded_def comp_def)
  have 4: "totalChickens (processMultipleImagesT cfg w' d' ps')
       = length (filter (\<lambda>e. isChicken (snd e)) (results (processMultipleImagesT cfg w' d' ps')))"
    by (simp only: total_processMultipleImagesT results_processMultipleImagesT)
  have 5: "totalChickens (processMultipleImagesT cfg w' d' ps')
       \<le> length (results (processMultipleImagesT cfg w' d' ps'))"
    unfolding 4 by (rule length_filter_le)
  have 6: "map snd (results (processMultipleImagesT cfg w' d' ps'))
       = map (\<lambda>p. the (processImageT cfg w' d' p))
           (filter (\<lambda>p. processImageT cfg w' d' p \<noteq> None) ps')"
    by (simp add: results_processMultipleImagesT succeeded_def comp_def)
  show ?thesis by (intro conjI 1 2 3 4 5 6)
qed

text \<open>
  One image with two birds: the generic counter is 2, while one image is positive and one
  image was processed.
\<close>

theorem totalChickens_exceeds_images:
  "totalChickens (processMultipleImages demo_world demo_detector [''photos/a.JPG''])
     \<noteq> positive_count (map snd (results (processMultipleImages demo_world demo_detector [''photos/a.JPG''])))
   \<and> \<not> totalChickens (processMultipleImages demo_world demo_detector [''photos/a.JPG''])
       \<le> length (results (processMultipleImages demo_world demo_detector [''photos/a.JPG'']))"
proof -
  have r: "results (processMultipleImages demo_world demo_detector [''photos/a.JPG''])
             = [(''photos/a.JPG'', scenario_a)]"
    by (simp add: results_processMultipleImages succeeded_def processImage_a)
  have t: "totalChickens (processMultipleImages demo_world demo_detector [''photos/a.JPG'']) = 2"
    by (simp add: total_processMultipleImages succeeded_def processImage_a scenario_a_def)
  have p: "positive_count [scenario_a] = 1"
    by (simp add: positive_count_def scenario_a_def)
  show ?thesis unfolding r t by (simp add: p)
qed

text \<open>
  C2 (amended). A batch is never aborted, and its result list holds one entry per input
  path whose processing succeeded, in input order, each with the result of its path; a
  path whose processing failed has no entry, so the list is shorter than the input by the
  number of failures.
\<close>

theorem processMultipleImages_keeps_successes:
  "results (processMultipleImages w d ps)
     = map (\<lambda>p. (p, the (processImage w d p))) (filter (\<lambda>p. processImage w d p \<noteq> None) ps)
   \<and> map fst (results (processMultipleImages w d ps)) = filter (\<lambda>p. processImage w d p \<noteq> None) ps
   \<and> length (results (processMultipleImages w d ps))
         + length (filter (\<lambda>p. processImage w d p = None) ps) = length ps
   \<and> results (processMultipleImagesT cfg w' d' ps')
     = map (\<lambda>p. (p, the (processImageT cfg w' d' p)))
         (filter (\<lambda>p. processImageT cfg w' d' p \<noteq> None) ps')
   \<and> map fst (results (processMultipleImagesT cfg w' d' ps'))
     = filter (\<lambda>p. processImageT cfg w' d' p \<noteq> None) ps'
   \<and> length (results (processMultipleImagesT cfg w' d' ps'))
         + length (filter (\<lambda>p. processImageT cfg w' d' p = None) ps') = length ps'"
proof -
  have 1: "results (processMultipleImages w d ps)
     = map (\<lambda>p. (p, the (processImage w d p))) (filter (\<lambda>p. processImage w d p \<noteq> None) ps)"
    by (simp only: results_processMultipleImages succeeded_def)
  have 2: "map fst (results (processMultipleImages w d ps)) = filter (\<lambda>p. processImage w d p \<noteq> None) ps"
    by (simp only: results_processMultipleImages map_fst_succeeded)
  have 3: "length (results (processMultipleImages w d ps))
         + length (filter (\<lambda>p. processImage w d p = None) ps) = length ps"
    by (simp only: results_processMultipleImages length_succeeded)
  have 4: "results (processMultipleImagesT cfg w' d' ps')
     = map (\<lambda>p. (p, the (processImageT cfg w' d' p)))
         (filter (\<lambda>p. processImageT cfg w' d' p \<noteq> None) ps')"
    by (simp only: results_processMultipleImagesT succeeded_def)
  have 5: "map fst (results (processMultipleImagesT cfg w' d' ps'))
     = filter (\<lambda>p. processImageT cfg w' d' p \<noteq> None) ps'"
    by (simp only: results_processMultipleImagesT map_fst_succeeded)
  have 6: "length (results (processMultipleImagesT cfg w' d' ps'))
         + length (filter (\<lambda>p. processImageT cfg w' d' p = None) ps') = length ps'"
    by (simp only: results_processMultipleImagesT length_succeeded)
  show ?thesis by (intro conjI 1 2 3 4 5 6)
qed

text \<open>Two paths, the first of which does not exist: the result list has one entry.\<close>

theorem processMultipleImages_omits_failures:
  "processImage demo_world demo_detector ''photos/missing.jpg'' = None
   \<and> results (processMultipleImages demo_world demo_detector [''photos/missing.jpg'', ''photos/a.JPG''])
       = [(''photos/a.JPG'', scenario_a)]
   \<and> length (results (processMultipleImages demo_world demo_detector
                 [''photos/missing.jpg'', ''photos/a.JPG'']))
       \<noteq> length [''photos/missing.jpg'', ''photos/a.JPG'']"
proof -
  have r: "results (processMultipleImages demo_world demo_detector [''photos/missing.jpg'', ''photos/a.JPG''])
       = [(''photos/a.JPG'', scenario_a)]"
    by (simp add: results_processMultipleImages succeeded_def processImage_a processImage_missing)
  show ?thesis unfolding r by (simp add: processImage_missing)
qed

section \<open>The binary interpreter\<close>

lemma fold_push_result:
  "fold (push_result cs pd) is acc
     = acc @ map (\<lambda>i. \<lparr>class_label = class_name cs i, confidence = pd ! i\<rparr>) is"
  by (induction "is" arbitrary: acc) (simp_all add: push_result_def)

lemma pair_results_map:
  "pair_results cs pd
     = map (\<lambda>i. \<lparr>class_label = class_name cs i, confidence = pd ! i\<rparr>) [0..<length pd]"
  by (simp add: pair_results_def fold_push_result)

lemma length_pair_results: "length (pair_results cs pd) = length pd"
  by (simp add: pair_results_map)

lemma pair_results_nth:
  "i < length pd \<Longrightarrow>
   pair_results cs pd ! i = \<lparr>class_label = class_name cs i, confidence = pd ! i\<rparr>"
  by (simp add: pair_results_map)

lemma pair_results_empty_iff: "pair_results cs pd = [] \<longleftrightarrow> pd = []"
  using length_pair_results[of cs pd] by (metis length_0_conv)

lemma digit_at:
  assumes "k < 10"
  shows "digit_value (''0123456789'' ! k) = k"
proof -
  have "k < Suc (Suc (Suc (Suc (Suc (Suc (Suc (Suc (Suc (Suc 0)))))))))"
    using assms by simp
  then show ?thesis
    by (auto simp: less_Suc_eq digit_value_def)
qed

lemma decimal_value_snoc: "decimal_value (s @ [c]) = 10 * decimal_value s + digit_value c"
  by (simp add: decimal_value_def)

lemma decimal_string_of_nat: "decimal_value (string_of_nat n) = n"
proof (induction n rule: string_of_nat.induct)
  case (1 n)
  show ?case
  proof (cases "n < 10")
    case True
    then show ?thesis
      by (subst string_of_nat.simps) (simp add: decimal_value_def digit_at)
  next
    case False
    have "decimal_value (string_of_nat n)
            = 10 * decimal_value (string_of_nat (n div 10)) + digit_value (''0123456789'' ! (n mod 10))"
      using False by (subst string_of_nat.simps) (simp add: decimal_value_snoc)
    also have "\<dots> = 10 * (n div 10) + n mod 10"
      using "1.IH"[OF False] by (simp add: digit_at)
    finally show ?thesis by simp
  qed
qed

lemma detectChickensT_unfold:
  assumes "model d = Some m" "existsSync w imagePath" "jimp_read w imagePath = Inr img"
  shows "detectChickensT cfg w d imagePath
           = (case m (tensorT w img) of Inl e \<Rightarrow> Inl e | Inr pd \<Rightarrow> interpretT cfg pd)"
proof -
  have st: "new_image img [] = (0, [img])" by (simp add: new_image_def)
  have rs: "resize w 0 224 224 [img] = (0, [resizedT w img])"
    by (simp add: resize_def bitmap_of_def resizedT_def)
  have b: "bitmap_of [resizedT w img] 0 = resizedT w img" by (simp add: bitmap_of_def)
  have wh: "width (resizedT w img) = 224" "height (resizedT w img) = 224"
    by (simp_all add: resizedT_def)
  have t: "tensor_of (imageArray_of (fround w) (resizedT w img)) [1, 224, 224, 3] = Inr (tensorT w img)"
    by (simp add: tensor_of_def length_imageArray_of wh tensorT_def)
  have t': "tensor_of (imageArray_of (fround w) (resizedT w img)) [Suc 0, 224, 224, 3]
             = Inr (tensorT w img)"
    using t by simp
  show ?thesis
    unfolding detectChickensT_def
    by (simp add: assms st rs b wh t' interpretT_def split: sum.split)
qed

lemma detectChickensT_cases:
  assumes "detectChickensT cfg w d imagePath = Inr r"
  obtains m img pd where "model d = Some m" "existsSync w imagePath"
    "jimp_read w imagePath = Inr img" "m (tensorT w img) = Inr pd" "interpretT cfg pd = Inr r"
proof -
  from assms obtain m where m: "model d = Some m"
    by (cases "model d") (simp_all add: detectChickensT_def)
  from assms m have ex: "existsSync w imagePath"
    by (cases "existsSync w imagePath") (simp_all add: detectChickensT_def)
  from assms m ex obtain img where img: "jimp_read w imagePath = Inr img"
    by (cases "jimp_read w imagePath") (simp_all add: detectChickensT_def)
  note u = detectChickensT_unfold[OF m ex img, of cfg]
  from assms obtain pd where pd: "m (tensorT w img) = Inr pd"
    unfolding u by (cases "m (tensorT w img)") simp_all
  from assms have "interpretT cfg pd = Inr r"
    unfolding u by (simp add: pd)
  with m ex img pd show thesis by (rule that)
qed

lemma interpretT_cases:
  assumes "interpretT cfg pd = Inr r"
  obtains best where "reduce better (pair_results (classes cfg) pd) = Inr best"
    "r = \<lparr>predictions = pair_results (classes cfg) pd, bestPrediction = best,
          isChicken = (class_label best = positive cfg \<and> js_gt (confidence best) (Num 0.7)),
          bestConfidence = confidence best, imageSizeT = (224, 224)\<rparr>"
proof -
  from assms obtain best where b: "reduce better (pair_results (classes cfg) pd) = Inr best"
    by (cases "reduce better (pair_results (classes cfg) pd)") (simp_all add: interpretT_def)
  from assms b have "r = \<lparr>predictions = pair_results (classes cfg) pd, bestPrediction = best,
          isChicken = (class_label best = positive cfg \<and> js_gt (confidence best) (Num 0.7)),
          bestConfidence = confidence best, imageSizeT = (224, 224)\<rparr>"
    by (simp add: interpretT_def)
  with b show thesis by (rule that)
qed

lemma reduce_Inr_iff: "(\<exists>b. reduce f rs = Inr b) \<longleftrightarrow> rs \<noteq> []"
  by (cases rs) simp_all

lemma reduce_Inl_iff: "reduce f rs = Inl ReduceOfEmptyArray \<longleftrightarrow> rs = []"
  by (cases rs) simp_all

lemma better_snoc: "foldl better x (xs @ [y]) = better (foldl better x xs) y"
  by simp

lemma js_gt_trans: "js_gt a b \<Longrightarrow> js_gt b c \<Longrightarrow> js_gt a c"
  by (cases a; cases b; cases c) simp_all

lemma js_gt_irrefl: "\<not> js_gt a a"
  by (cases a) simp_all

lemma js_gt_asym: "js_gt a b \<Longrightarrow> \<not> js_gt b a"
  by (cases a; cases b) simp_all

lemma not_js_gt_trans:
  "a \<noteq> NaN \<Longrightarrow> b \<noteq> NaN \<Longrightarrow> c \<noteq> NaN \<Longrightarrow> \<not> js_gt a b \<Longrightarrow> \<not> js_gt b c \<Longrightarrow> \<not> js_gt a c"
  by (cases a; cases b; cases c) simp_all

lemma not_js_gt_le:
  "a \<noteq> NaN \<Longrightarrow> b \<noteq> NaN \<Longrightarrow> \<not> js_gt a b \<Longrightarrow> \<exists>u v. a = Num u \<and> b = Num v \<and> u \<le> v"
  by (cases a; cases b) simp_all

text \<open>
  The loop invariant of the reduction, NaN or not: the running best is followed only by
  entries it beats, and every entry before it has lost against an entry up to it.
\<close>

lemma foldl_better_selected:
  "\<exists>i < length (x # xs). foldl better x xs = (x # xs) ! i
     \<and> (\<forall>j < length (x # xs). i < j \<longrightarrow>
           js_gt (confidence ((x # xs) ! i)) (confidence ((x # xs) ! j)))
     \<and> (\<forall>k < i. \<exists>j. k < j \<and> j \<le> i
           \<and> \<not> js_gt (confidence ((x # xs) ! k)) (confidence ((x # xs) ! j)))"
proof (induction xs rule: rev_induct)
  case Nil
  show ?case by simp
next
  case (snoc y xs)
  let ?rs = "x # xs"
  let ?n = "length ?rs"
  from snoc obtain i where i: "i < ?n" and b: "foldl better x xs = ?rs ! i"
    and dom: "\<forall>j < ?n. i < j \<longrightarrow> js_gt (confidence (?rs ! i)) (confidence (?rs ! j))"
    and lost: "\<forall>k < i. \<exists>j. k < j \<and> j \<le> i
                 \<and> \<not> js_gt (confidence (?rs ! k)) (confidence (?rs ! j))"
    by blast
  have app: "x # xs @ [y] = ?rs @ [y]" by simp
  have old: "(?rs @ [y]) ! j = ?rs ! j" if "j < ?n" for j
    using that by (simp only: nth_append if_True)
  have new: "(?rs @ [y]) ! ?n = y" by (simp only: nth_append_length)
  have split: "j < ?n \<or> j = ?n" if "j < length (?rs @ [y])" for j
    using that by auto
  show ?case
  proof (cases "js_gt (confidence (?rs ! i)) (confidence y)")
    case True
    have r: "foldl better x (xs @ [y]) = (?rs @ [y]) ! i"
      unfolding better_snoc b old[OF i] using True by (simp add: better_def)
    have d: "\<forall>j < length (?rs @ [y]). i < j \<longrightarrow>
               js_gt (confidence ((?rs @ [y]) ! i)) (confidence ((?rs @ [y]) ! j))"
    proof (intro allI impI)
      fix j assume "j < length (?rs @ [y])" and ij: "i < j"
      from split[OF this(1)]
      show "js_gt (confidence ((?rs @ [y]) ! i)) (confidence ((?rs @ [y]) ! j))"
      proof
        assume j: "j < ?n"
        show ?thesis unfolding old[OF j] old[OF i] using dom j ij by blast
      next
        assume j: "j = ?n"
        show ?thesis unfolding j new old[OF i] using True .
      qed
    qed
    have l: "\<forall>k < i. \<exists>j. k < j \<and> j \<le> i
               \<and> \<not> js_gt (confidence ((?rs @ [y]) ! k)) (confidence ((?rs @ [y]) ! j))"
    proof (intro allI impI)
      fix k assume k: "k < i"
      with lost obtain j where j: "k < j" "j \<le> i"
        and nj: "\<not> js_gt (confidence (?rs ! k)) (confidence (?rs ! j))"
        by blast
      have kn: "k < ?n" and jn: "j < ?n" using k j i by linarith+
      have "\<not> js_gt (confidence ((?rs @ [y]) ! k)) (confidence ((?rs @ [y]) ! j))"
        unfolding old[OF kn] old[OF jn] by (rule nj)
      with j show "\<exists>j. k < j \<and> j \<le> i
               \<and> \<not> js_gt (confidence ((?rs @ [y]) ! k)) (confidence ((?rs @ [y]) ! j))"
        by blast
    qed
    have "i < length (?rs @ [y])" using i by simp
    with r d l show ?thesis unfolding app by blast
  next
    case False
    have r: "foldl better x (xs @ [y]) = (?rs @ [y]) ! ?n"
      unfolding better_snoc b new using False by (simp add: better_def)
    have d: "\<forall>j < length (?rs @ [y]). ?n < j \<longrightarrow>
               js_gt (confidence ((?rs @ [y]) ! ?n)) (confidence ((?rs @ [y]) ! j))"
      by simp
    have l: "\<forall>k < ?n. \<exists>j. k < j \<and> j \<le> ?n
               \<and> \<not> js_gt (confidence ((?rs @ [y]) ! k)) (confidence ((?rs @ [y]) ! j))"
    proof (intro allI impI)
      fix k assume kn: "k < ?n"
      consider "k < i" | "k = i" | "i < k" by linarith
      then show "\<exists>j. k < j \<and> j \<le> ?n
               \<and> \<not> js_gt (confidence ((?rs @ [y]) ! k)) (confidence ((?rs @ [y]) ! j))"
      proof cases
        case 1
        with lost obtain j where j: "k < j" "j \<le> i"
          and nj: "\<not> js_gt (confidence (?rs ! k)) (confidence (?rs ! j))"
          by blast
        have jn: "j < ?n" using j i by linarith
        have "\<not> js_gt (confidence ((?rs @ [y]) ! k)) (confidence ((?rs @ [y]) ! j))"
          unfolding old[OF kn] old[OF jn] by (rule nj)
        moreover have "j \<le> ?n" using jn by simp
        ultimately show ?thesis using j(1) by blast
      next
        case 2
        have "\<not> js_gt (confidence ((?rs @ [y]) ! k)) (confidence ((?rs @ [y]) ! ?n))"
          unfolding old[OF kn] new unfolding 2 by (rule False)
        with kn show ?thesis by blast
      next
        case 3
        have ik: "js_gt (confidence (?rs ! i)) (confidence (?rs ! k))"
          using dom kn 3 by blast
        have "\<not> js_gt (confidence (?rs ! k)) (confidence y)"
        proof
          assume "js_gt (confidence (?rs ! k)) (confidence y)"
          with ik have "js_gt (confidence (?rs ! i)) (confidence y)" by (rule js_gt_trans)
          with False show False ..
        qed
        then have "\<not> js_gt (confidence ((?rs @ [y]) ! k)) (confidence ((?rs @ [y]) ! ?n))"
          unfolding old[OF kn] new .
        with kn show ?thesis by blast
      qed
    qed
    have "?n < length (?rs @ [y])" by simp
    with r d l show ?thesis unfolding app by blast
  qed
qed

text \<open>Without NaN no entry beats the one the reduction returns.\<close>

lemma foldl_better_max:
  "\<forall>e \<in> set (x # xs). confidence e \<noteq> NaN \<Longrightarrow>
   \<forall>e \<in> set (x # xs). \<not> js_gt (confidence e) (confidence (foldl better x xs))"
proof (induction xs rule: rev_induct)
  case Nil
  show ?case by (simp add: js_gt_irrefl)
next
  case (snoc y xs)
  let ?b = "foldl better x xs"
  from snoc.prems have nn: "\<forall>e \<in> set (x # xs). confidence e \<noteq> NaN" and ny: "confidence y \<noteq> NaN"
    by simp_all
  from snoc.IH[OF nn] have ih: "\<forall>e \<in> set (x # xs). \<not> js_gt (confidence e) (confidence ?b)" .
  have bin: "?b \<in> set (x # xs)"
    using foldl_better_selected[of x xs] nth_mem[of _ "x # xs"] by metis
  then have nb: "confidence ?b \<noteq> NaN" using nn by blast
  show ?case
  proof (cases "js_gt (confidence ?b) (confidence y)")
    case True
    then have r: "foldl better x (xs @ [y]) = ?b" by (simp add: better_def)
    have "\<not> js_gt (confidence y) (confidence ?b)" using True by (rule js_gt_asym)
    with ih show ?thesis unfolding r by simp
  next
    case False
    then have r: "foldl better x (xs @ [y]) = y" by (simp add: better_def)
    have "\<not> js_gt (confidence e) (confidence y)" if e: "e \<in> set (x # xs)" for e
    proof -
      have ne: "confidence e \<noteq> NaN" using nn e by blast
      have n1: "\<not> js_gt (confidence e) (confidence ?b)" using ih e by blast
      show ?thesis by (rule not_js_gt_trans[OF ne nb ny n1 False])
    qed
    then show ?thesis unfolding r using js_gt_irrefl[of "confidence y"] by simp
  qed
qed

text \<open>The two properties of the invariant single out one index.\<close>

lemma selected_unique:
  fixes i i' n :: nat
  assumes i: "\<forall>j < n. i < j \<longrightarrow> js_gt (c i) (c j)"
    and i': "\<forall>k < i'. \<exists>j. k < j \<and> j \<le> i' \<and> \<not> js_gt (c k) (c j)"
    and j: "\<forall>j < n. i' < j \<longrightarrow> js_gt (c i') (c j)"
    and j': "\<forall>k < i. \<exists>j. k < j \<and> j \<le> i \<and> \<not> js_gt (c k) (c j)"
    and n: "i < n" "i' < n"
  shows "i = i'"
proof (rule ccontr)
  assume "i \<noteq> i'"
  then consider "i < i'" | "i' < i" by linarith
  then show False
  proof cases
    case 1
    with i' obtain k where "i < k" "k \<le> i'" "\<not> js_gt (c i) (c k)" by blast
    moreover have "k < n" using \<open>k \<le> i'\<close> n by linarith
    ultimately show False using i by blast
  next
    case 2
    with j' obtain k where "i' < k" "k \<le> i" "\<not> js_gt (c i') (c k)" by blast
    moreover have "k < n" using \<open>k \<le> i\<close> n by linarith
    ultimately show False using j by blast
  qed
qed

lemma interpretT_scenario: "interpretT labels_en [Num 0.152, Num 0.848] = Inr scenario_b"
  by (simp add: interpretT_def pair_results_map labels_en_def class_name_def better_def
      scenario_b_def)

lemma interpretT_tie: "interpretT labels_en [Num 0.5, Num 0.5] = Inr tie_result"
  by (simp add: interpretT_def pair_results_map labels_en_def class_name_def better_def
      tie_result_def)

lemma interpretT_low: "interpretT labels_en [Num 0.9, Num 0.1] = Inr low_result"
  by (simp add: interpretT_def pair_results_map labels_en_def class_name_def better_def
      low_result_def)

lemma string_of_nat_2: "string_of_nat 2 = ''2''" "string_of_nat (Suc (Suc 0)) = ''2''"
  by (subst string_of_nat.simps, simp)+

lemma interpretT_nan: "interpretT labels_en [Num 0.875, NaN, Num 0.125] = Inr nan_result"
  by (simp add: interpretT_def pair_results_map labels_en_def class_name_def better_def
      nan_result_def string_of_nat_2)

lemma interpretT_empty: "interpretT cfg [] = Inl ReduceOfEmptyArray"
  by (simp add: interpretT_def pair_results_map)

lemma demo_facts:
  "existsSync demo_world ''photos/a.JPG''"
  "jimp_read demo_world ''photos/a.JPG'' = Inr tiny_bitmap"
  by (simp_all add: demo_world_def)

lemma photo_facts:
  "existsSync photo_world ''photos/a.JPG''"
  "jimp_read photo_world ''photos/a.JPG'' = Inr photo_bitmap"
  by (simp_all add: photo_world_def demo_world_def)

lemma detectChickensT_scenario:
  "detectChickensT labels_en demo_world \<lparr>model = Some scenario_layers\<rparr> ''photos/a.JPG''
     = Inr scenario_b"
proof -
  have m: "model \<lparr>model = Some scenario_layers\<rparr> = Some scenario_layers" by simp
  show ?thesis
    unfolding detectChickensT_unfold[OF m demo_facts] scenario_layers_def
    by (simp only: sum.case interpretT_scenario)
qed

lemma detectChickensT_tie:
  "detectChickensT labels_en demo_world \<lparr>model = Some tie_layers\<rparr> ''photos/a.JPG''
     = Inr tie_result"
proof -
  have m: "model \<lparr>model = Some tie_layers\<rparr> = Some tie_layers" by simp
  show ?thesis
    unfolding detectChickensT_unfold[OF m demo_facts] tie_layers_def
    by (simp only: sum.case interpretT_tie)
qed

lemma detectChickensT_low:
  "detectChickensT labels_en demo_world \<lparr>model = Some low_layers\<rparr> ''photos/a.JPG''
     = Inr low_result"
proof -
  have m: "model \<lparr>model = Some low_layers\<rparr> = Some low_layers" by simp
  show ?thesis
    unfolding detectChickensT_unfold[OF m demo_facts] low_layers_def
    by (simp only: sum.case interpretT_low)
qed

lemma detectChickensT_nan:
  "detectChickensT labels_en demo_world \<lparr>model = Some nan_layers\<rparr> ''photos/a.JPG''
     = Inr nan_result"
proof -
  have m: "model \<lparr>model = Some nan_layers\<rparr> = Some nan_layers" by simp
  show ?thesis
    unfolding detectChickensT_unfold[OF m demo_facts] nan_layers_def
    by (simp only: sum.case interpretT_nan)
qed

lemma detectChickensT_empty:
  "detectChickensT labels_en demo_world \<lparr>model = Some empty_layers\<rparr> ''photos/a.JPG''
     = Inl ReduceOfEmptyArray"
proof -
  have m: "model \<lparr>model = Some empty_layers\<rparr> = Some empty_layers" by simp
  show ?thesis
    unfolding detectChickensT_unfold[OF m demo_facts] empty_layers_def
    by (simp only: sum.case interpretT_empty)
qed

lemma detectChickensT_photo:
  "detectChickensT labels_en photo_world \<lparr>model = Some scenario_layers\<rparr> ''photos/a.JPG''
     = Inr scenario_b"
proof -
  have m: "model \<lparr>model = Some scenario_layers\<rparr> = Some scenario_layers" by simp
  show ?thesis
    unfolding detectChickensT_unfold[OF m photo_facts] scenario_layers_def
    by (simp only: sum.case interpretT_scenario)
qed

text \<open>
  C9. The loop makes one entry per score, in the order of the scores: entry i carries
  score i, labelled with the configured label i while the labels last and with "Class"
  followed by the decimal numeral of i beyond them. The configured labels are non-empty
  strings, as those of both editions are. What \<^verbatim>\<open>detectChickens\<close> returns as
  \<^verbatim>\<open>predictions\<close> is this list for the scores of the model.
\<close>

theorem pair_results_labels:
  assumes "[] \<notin> set cs"
  shows "length (pair_results cs pd) = length pd
    \<and> (\<forall>i < length pd.
          confidence (pair_results cs pd ! i) = pd ! i
          \<and> class_label (pair_results cs pd ! i)
              = (if i < length cs then cs ! i else ''Class '' @ string_of_nat i))
    \<and> (\<forall>i. decimal_value (string_of_nat i) = i)
    \<and> (\<forall>cfg w d p r. detectChickensT cfg w d p = Inr r \<longrightarrow>
          (\<exists>m t scores. model d = Some m \<and> m t = Inr scores
             \<and> predictions r = pair_results (classes cfg) scores))"
proof (intro conjI allI impI)
  show "length (pair_results cs pd) = length pd" by (rule length_pair_results)
next
  fix i assume i: "i < length pd"
  show "confidence (pair_results cs pd ! i) = pd ! i"
    by (simp add: pair_results_nth[OF i])
  have "i < length cs \<Longrightarrow> cs ! i \<noteq> []"
    using assms nth_mem[of i cs] by metis
  then show "class_label (pair_results cs pd ! i)
              = (if i < length cs then cs ! i else ''Class '' @ string_of_nat i)"
    by (simp add: pair_results_nth[OF i] class_name_def)
next
  fix i show "decimal_value (string_of_nat i) = i" by (rule decimal_string_of_nat)
next
  fix cfg w d p r assume "detectChickensT cfg w d p = Inr r"
  then obtain m img pd' where m: "model d = Some m" and out: "m (tensorT w img) = Inr pd'"
    and int: "interpretT cfg pd' = Inr r"
    by (rule detectChickensT_cases)
  from int have "predictions r = pair_results (classes cfg) pd'"
    by (rule interpretT_cases) simp
  with m out show "\<exists>m t scores. model d = Some m \<and> m t = Inr scores
             \<and> predictions r = pair_results (classes cfg) scores"
    by blast
qed

theorem pair_results_labels_witness:
  "[] \<notin> set (classes labels_en) \<and> [] \<notin> set (classes labels_de)
   \<and> length (pair_results (classes labels_en) [Num 0.1, Num 0.2, Num 0.7]) = 3
   \<and> confidence (pair_results (classes labels_en) [Num 0.1, Num 0.2, Num 0.7] ! 1) = Num 0.2
   \<and> class_label (pair_results (classes labels_en) [Num 0.1, Num 0.2, Num 0.7] ! 1) = ''Chicken''
   \<and> class_label (pair_results (classes labels_de) [Num 0.1, Num 0.2, Num 0.7] ! 1) = ''Huhn''
   \<and> class_label (pair_results (classes labels_en) [Num 0.1, Num 0.2, Num 0.7] ! 2) = ''Class 2''"
proof -
  have en: "[] \<notin> set (classes labels_en)" by (simp add: labels_en_def)
  have de: "[] \<notin> set (classes labels_de)" by (simp add: labels_de_def)
  note t = pair_results_labels[OF en, of "[Num 0.1, Num 0.2, Num 0.7]"]
  note u = pair_results_labels[OF de, of "[Num 0.1, Num 0.2, Num 0.7]"]
  have l: "length (pair_results (classes labels_en) [Num 0.1, Num 0.2, Num 0.7]) = 3"
    using t[THEN conjunct1] by simp
  note cell = t[THEN conjunct2, THEN conjunct1, rule_format]
  note cell_de = u[THEN conjunct2, THEN conjunct1, rule_format]
  have i1: "(1::nat) < length [Num 0.1, Num 0.2, Num 0.7]" and i2: "(2::nat) < length [Num 0.1, Num 0.2, Num 0.7]"
    by simp_all
  have c1: "confidence (pair_results (classes labels_en) [Num 0.1, Num 0.2, Num 0.7] ! 1) = Num 0.2"
    using cell[OF i1, THEN conjunct1] by simp
  have l1: "class_label (pair_results (classes labels_en) [Num 0.1, Num 0.2, Num 0.7] ! 1) = ''Chicken''"
    using cell[OF i1, THEN conjunct2] by (simp add: labels_en_def)
  have d1: "class_label (pair_results (classes labels_de) [Num 0.1, Num 0.2, Num 0.7] ! 1) = ''Huhn''"
    using cell_de[OF i1, THEN conjunct2] by (simp add: labels_de_def)
  have s2: "string_of_nat 2 = ''2''"
    by (subst string_of_nat.simps) simp
  have l2: "class_label (pair_results (classes labels_en) [Num 0.1, Num 0.2, Num 0.7] ! 2) = ''Class 2''"
    using cell[OF i2, THEN conjunct2] by (simp add: labels_en_def s2)
  show ?thesis by (intro conjI en de l c1 l1 d1 l2)
qed

text \<open>
  C3 (amended). On a non-empty prediction list the reduction returns the entry at one
  index i, which is fixed by two properties: every later entry has a score strictly below
  that of entry i, and every earlier entry has a later entry, up to i, that it does not
  beat. The running best is kept only while its score is strictly greater than the
  current entry's; it is replaced on an equal score, and on any comparison with NaN. When
  no score is NaN, entry i has the maximum score and is the last entry (highest index)
  with that score. The selection is a function of the list alone. What
  \<^verbatim>\<open>detectChickens\<close> returns as \<^verbatim>\<open>bestPrediction\<close> is this selection on its
  \<^verbatim>\<open>predictions\<close>.
\<close>

theorem reduce_better_last_maximum:
  assumes "rs \<noteq> []"
  shows "(\<exists>i < length rs. reduce better rs = Inr (rs ! i)
            \<and> (\<forall>j < length rs. i < j \<longrightarrow> js_gt (confidence (rs ! i)) (confidence (rs ! j)))
            \<and> (\<forall>k < i. \<exists>j. k < j \<and> j \<le> i
                  \<and> \<not> js_gt (confidence (rs ! k)) (confidence (rs ! j)))
            \<and> ((\<forall>e \<in> set rs. confidence e \<noteq> NaN) \<longrightarrow>
                  (\<exists>v. confidence (rs ! i) = Num v
                     \<and> (\<forall>j < length rs. \<exists>u. confidence (rs ! j) = Num u \<and> u \<le> v)
                     \<and> (\<forall>j < length rs. i < j \<longrightarrow>
                           (\<exists>u. confidence (rs ! j) = Num u \<and> u < v)))))
    \<and> (\<forall>prev current. better prev current
           = (if js_gt (confidence prev) (confidence current) then prev else current))
    \<and> (\<forall>a. \<not> js_gt a NaN \<and> \<not> js_gt NaN a)
    \<and> (\<forall>u v. js_gt (Num u) (Num v) \<longleftrightarrow> v < u)
    \<and> (\<forall>cfg w d p r. detectChickensT cfg w d p = Inr r \<longrightarrow>
           reduce better (predictions r) = Inr (bestPrediction r))"
proof (intro conjI allI impI)
  from assms obtain x xs where rs: "rs = x # xs" by (cases rs) auto
  from foldl_better_selected[of x xs] obtain i where i: "i < length rs"
    and b: "foldl better x xs = rs ! i"
    and dom: "\<forall>j < length rs. i < j \<longrightarrow> js_gt (confidence (rs ! i)) (confidence (rs ! j))"
    and lost: "\<forall>k < i. \<exists>j. k < j \<and> j \<le> i
                 \<and> \<not> js_gt (confidence (rs ! k)) (confidence (rs ! j))"
    unfolding rs by blast
  have red: "reduce better rs = Inr (rs ! i)"
    using b unfolding rs reduce.simps by simp
  have num: "\<exists>v. confidence (rs ! i) = Num v
                     \<and> (\<forall>j < length rs. \<exists>u. confidence (rs ! j) = Num u \<and> u \<le> v)
                     \<and> (\<forall>j < length rs. i < j \<longrightarrow>
                           (\<exists>u. confidence (rs ! j) = Num u \<and> u < v))"
    if nn: "\<forall>e \<in> set rs. confidence e \<noteq> NaN"
  proof -
    have ni: "confidence (rs ! i) \<noteq> NaN" using nn i nth_mem by blast
    then obtain v where v: "confidence (rs ! i) = Num v" by (cases "confidence (rs ! i)") auto
    have mx: "\<forall>e \<in> set rs. \<not> js_gt (confidence e) (confidence (rs ! i))"
      using foldl_better_max[of x xs] nn unfolding rs[symmetric] b by blast
    have le: "\<exists>u. confidence (rs ! j) = Num u \<and> u \<le> v" if j: "j < length rs" for j
    proof -
      have nj: "confidence (rs ! j) \<noteq> NaN" using nn j nth_mem by blast
      have "\<not> js_gt (confidence (rs ! j)) (confidence (rs ! i))" using mx j nth_mem by blast
      from not_js_gt_le[OF nj ni this] show ?thesis unfolding v by auto
    qed
    have lt: "\<exists>u. confidence (rs ! j) = Num u \<and> u < v" if j: "j < length rs" and ij: "i < j" for j
    proof -
      from le[OF j] obtain u where u: "confidence (rs ! j) = Num u" by blast
      have "js_gt (confidence (rs ! i)) (confidence (rs ! j))" using dom j ij by blast
      then have "u < v" unfolding u v by simp
      with u show ?thesis by blast
    qed
    from v le lt show ?thesis by blast
  qed
  from i red dom lost num
  show "\<exists>i < length rs. reduce better rs = Inr (rs ! i)
            \<and> (\<forall>j < length rs. i < j \<longrightarrow> js_gt (confidence (rs ! i)) (confidence (rs ! j)))
            \<and> (\<forall>k < i. \<exists>j. k < j \<and> j \<le> i
                  \<and> \<not> js_gt (confidence (rs ! k)) (confidence (rs ! j)))
            \<and> ((\<forall>e \<in> set rs. confidence e \<noteq> NaN) \<longrightarrow>
                  (\<exists>v. confidence (rs ! i) = Num v
                     \<and> (\<forall>j < length rs. \<exists>u. confidence (rs ! j) = Num u \<and> u \<le> v)
                     \<and> (\<forall>j < length rs. i < j \<longrightarrow>
                           (\<exists>u. confidence (rs ! j) = Num u \<and> u < v))))"
    by blast
next
  fix prev current
  show "better prev current
          = (if js_gt (confidence prev) (confidence current) then prev else current)"
    by (simp add: better_def)
next
  fix a show "\<not> js_gt a NaN" by (cases a) simp_all
  show "\<not> js_gt NaN a" by simp
next
  fix u v :: real show "js_gt (Num u) (Num v) \<longleftrightarrow> v < u" by simp
next
  fix cfg w d p r assume "detectChickensT cfg w d p = Inr r"
  then obtain pd where "interpretT cfg pd = Inr r"
    by (rule detectChickensT_cases)
  then show "reduce better (predictions r) = Inr (bestPrediction r)"
    by (rule interpretT_cases) simp
qed

theorem reduce_better_last_maximum_witness:
  "predictions tie_result \<noteq> []
   \<and> reduce better (predictions tie_result) = Inr (predictions tie_result ! 1)
   \<and> reduce better (predictions tie_result) = Inr (bestPrediction tie_result)
   \<and> predictions nan_result \<noteq> []
   \<and> reduce better (predictions nan_result) = Inr (predictions nan_result ! 2)
   \<and> confidence (predictions nan_result ! 2) = Num 0.125
   \<and> confidence (predictions nan_result ! 0) = Num 0.875"
proof -
  have ne: "predictions tie_result \<noteq> []" by (simp add: tie_result_def)
  have nn: "predictions nan_result \<noteq> []" by (simp add: nan_result_def)
  note t = reduce_better_last_maximum[OF ne]
  note u = reduce_better_last_maximum[OF nn]
  have b: "reduce better (predictions tie_result) = Inr (bestPrediction tie_result)"
    using t[THEN conjunct2, THEN conjunct2, THEN conjunct2, THEN conjunct2, rule_format,
        OF detectChickensT_tie] .
  have l: "bestPrediction tie_result = predictions tie_result ! 1"
    by (simp add: tie_result_def)
  have c: "reduce better (predictions nan_result) = Inr (bestPrediction nan_result)"
    using u[THEN conjunct2, THEN conjunct2, THEN conjunct2, THEN conjunct2, rule_format,
        OF detectChickensT_nan] .
  have k: "bestPrediction nan_result = predictions nan_result ! 2"
    by (simp add: nan_result_def)
  have k2: "confidence (predictions nan_result ! 2) = Num 0.125"
    and k0: "confidence (predictions nan_result ! 0) = Num 0.875"
    by (simp_all add: nan_result_def)
  have b': "reduce better (predictions tie_result) = Inr (predictions tie_result ! 1)"
    using b unfolding l .
  have c': "reduce better (predictions nan_result) = Inr (predictions nan_result ! 2)"
    using c unfolding k .
  show ?thesis by (intro conjI ne b' b nn c' k2 k0)
qed

text \<open>
  Two equal scores: the first occurrence of the maximum is the entry "No Chicken" at index
  0, and the script's best prediction is the entry "Chicken" at index 1. And a NaN between
  0.875 and 0.125: the script's best prediction is the last entry, with 0.125.
\<close>

theorem reduce_better_tie_takes_last:
  "detectChickensT labels_en demo_world \<lparr>model = Some tie_layers\<rparr> ''photos/a.JPG''
     = Inr tie_result
   \<and> confidence (predictions tie_result ! 0) = confidence (predictions tie_result ! 1)
   \<and> bestPrediction tie_result = predictions tie_result ! 1
   \<and> bestPrediction tie_result \<noteq> predictions tie_result ! 0
   \<and> detectChickensT labels_en demo_world \<lparr>model = Some nan_layers\<rparr> ''photos/a.JPG''
     = Inr nan_result
   \<and> map confidence (predictions nan_result) = [Num 0.875, NaN, Num 0.125]
   \<and> confidence (bestPrediction nan_result) = Num 0.125"
proof -
  have t: "confidence (predictions tie_result ! 0) = confidence (predictions tie_result ! 1)"
    "bestPrediction tie_result = predictions tie_result ! 1"
    "bestPrediction tie_result \<noteq> predictions tie_result ! 0"
    by (simp_all add: tie_result_def)
  have n: "map confidence (predictions nan_result) = [Num 0.875, NaN, Num 0.125]"
    "confidence (bestPrediction nan_result) = Num 0.125"
    by (simp_all add: nan_result_def)
  show ?thesis by (intro conjI detectChickensT_tie t detectChickensT_nan n)
qed

text \<open>
  C4. Let the model answer the tensor of the image with a non-empty list of scores. Then
  the binary \<^verbatim>\<open>detectChickens\<close> returns; its predictions are the scores paired with
  their labels, its best prediction is the reduction of them, and its decision is true
  exactly when the label of the best prediction is the positive label of the edition and
  its score is above 0.7: both, not the best place alone. In terms of the scores, the
  decision is true exactly when the index the reduction selects carries the positive label
  and a score above 0.7. Every result the function returns arises this way. With the
  English labels and the scores 0.152 and 0.848 the best prediction is "Chicken" with
  0.848 and the decision is true.
\<close>

theorem isChicken_iff:
  "(model d = Some m \<and> existsSync w p \<and> jimp_read w p = Inr img
      \<and> m (tensorT w img) = Inr scores \<and> scores \<noteq> [] \<longrightarrow>
      (\<exists>r. detectChickensT cfg w d p = Inr r
         \<and> predictions r = pair_results (classes cfg) scores
         \<and> reduce better (pair_results (classes cfg) scores) = Inr (bestPrediction r)
         \<and> bestConfidence r = confidence (bestPrediction r)
         \<and> (isChicken r \<longleftrightarrow>
              class_label (bestPrediction r) = positive cfg
              \<and> js_gt (confidence (bestPrediction r)) (Num 0.7))
         \<and> (isChicken r \<longleftrightarrow>
              (\<exists>i < length scores.
                 (\<forall>j < length scores. i < j \<longrightarrow> js_gt (scores ! i) (scores ! j))
                 \<and> (\<forall>k < i. \<exists>j. k < j \<and> j \<le> i \<and> \<not> js_gt (scores ! k) (scores ! j))
                 \<and> class_name (classes cfg) i = positive cfg
                 \<and> js_gt (scores ! i) (Num 0.7)))))
   \<and> (detectChickensT cfg w d p = Inr r \<longrightarrow>
        (\<exists>m img scores. model d = Some m \<and> existsSync w p \<and> jimp_read w p = Inr img
           \<and> m (tensorT w img) = Inr scores \<and> scores \<noteq> [])
        \<and> (isChicken r \<longleftrightarrow>
             class_label (bestPrediction r) = positive cfg
             \<and> js_gt (confidence (bestPrediction r)) (Num 0.7))
        \<and> bestConfidence r = confidence (bestPrediction r))
   \<and> positive labels_en = ''Chicken'' \<and> positive labels_de = ''Huhn''
   \<and> (model d = Some m \<and> existsSync w p \<and> jimp_read w p = Inr img
        \<and> (\<forall>t. m t = Inr [Num 0.152, Num 0.848]) \<longrightarrow>
      (\<exists>r. detectChickensT labels_en w d p = Inr r
         \<and> predictions r = [\<lparr>class_label = ''No Chicken'', confidence = Num 0.152\<rparr>,
                            \<lparr>class_label = ''Chicken'', confidence = Num 0.848\<rparr>]
         \<and> bestPrediction r = \<lparr>class_label = ''Chicken'', confidence = Num 0.848\<rparr>
         \<and> isChicken r))"
proof (intro conjI impI)
  assume a: "model d = Some m \<and> existsSync w p \<and> jimp_read w p = Inr img
      \<and> m (tensorT w img) = Inr scores \<and> scores \<noteq> []"
  then have m: "model d = Some m" and ex: "existsSync w p" and img: "jimp_read w p = Inr img"
    and out: "m (tensorT w img) = Inr scores" and ne: "scores \<noteq> []"
    by blast+
  let ?rs = "pair_results (classes cfg) scores"
  have len: "length ?rs = length scores" by (rule length_pair_results)
  have rne: "?rs \<noteq> []" using ne by (simp add: pair_results_empty_iff)
  then obtain x xs where rs: "?rs = x # xs" by (cases ?rs) auto
  from foldl_better_selected[of x xs] obtain i where i: "i < length scores"
    and b: "foldl better x xs = ?rs ! i"
    and dom: "\<forall>j < length scores. i < j \<longrightarrow> js_gt (confidence (?rs ! i)) (confidence (?rs ! j))"
    and lost: "\<forall>k < i. \<exists>j. k < j \<and> j \<le> i
                 \<and> \<not> js_gt (confidence (?rs ! k)) (confidence (?rs ! j))"
    unfolding rs[symmetric] len by blast
  have cf: "confidence (?rs ! j) = scores ! j" if "j < length scores" for j
    by (simp add: pair_results_nth[OF that])
  have lb: "class_label (?rs ! j) = class_name (classes cfg) j" if "j < length scores" for j
    by (simp add: pair_results_nth[OF that])
  have dom': "\<forall>j < length scores. i < j \<longrightarrow> js_gt (scores ! i) (scores ! j)"
  proof (intro allI impI)
    fix j assume j: "j < length scores" and ij: "i < j"
    from dom j ij have "js_gt (confidence (?rs ! i)) (confidence (?rs ! j))" by blast
    then show "js_gt (scores ! i) (scores ! j)" unfolding cf[OF i] cf[OF j] .
  qed
  have lost': "\<forall>k < i. \<exists>j. k < j \<and> j \<le> i \<and> \<not> js_gt (scores ! k) (scores ! j)"
  proof (intro allI impI)
    fix k assume k: "k < i"
    with lost obtain j where j: "k < j" "j \<le> i"
      and nj: "\<not> js_gt (confidence (?rs ! k)) (confidence (?rs ! j))"
      by blast
    have kn: "k < length scores" and jn: "j < length scores" using k j i by linarith+
    from nj have "\<not> js_gt (scores ! k) (scores ! j)" unfolding cf[OF kn] cf[OF jn] .
    with j show "\<exists>j. k < j \<and> j \<le> i \<and> \<not> js_gt (scores ! k) (scores ! j)" by blast
  qed
  have red: "reduce better ?rs = Inr (?rs ! i)"
    using b unfolding rs reduce.simps by simp
  define r where "r = \<lparr>predictions = ?rs, bestPrediction = ?rs ! i,
      isChicken = (class_label (?rs ! i) = positive cfg \<and> js_gt (confidence (?rs ! i)) (Num 0.7)),
      bestConfidence = confidence (?rs ! i), imageSizeT = (224, 224)\<rparr>"
  have int: "interpretT cfg scores = Inr r"
    unfolding interpretT_def red r_def by simp
  have det: "detectChickensT cfg w d p = Inr r"
    unfolding detectChickensT_unfold[OF m ex img] out by (simp only: sum.case int)
  have p1: "predictions r = ?rs" by (simp add: r_def)
  have p2: "reduce better ?rs = Inr (bestPrediction r)" using red by (simp add: r_def)
  have p3: "bestConfidence r = confidence (bestPrediction r)" by (simp add: r_def)
  have p4: "isChicken r \<longleftrightarrow> class_label (bestPrediction r) = positive cfg
              \<and> js_gt (confidence (bestPrediction r)) (Num 0.7)"
    by (simp add: r_def)
  have dec: "isChicken r \<longleftrightarrow>
      class_name (classes cfg) i = positive cfg \<and> js_gt (scores ! i) (Num 0.7)"
    unfolding r_def by (simp add: cf[OF i] lb[OF i])
  have p5: "isChicken r \<longleftrightarrow>
              (\<exists>i < length scores.
                 (\<forall>j < length scores. i < j \<longrightarrow> js_gt (scores ! i) (scores ! j))
                 \<and> (\<forall>k < i. \<exists>j. k < j \<and> j \<le> i \<and> \<not> js_gt (scores ! k) (scores ! j))
                 \<and> class_name (classes cfg) i = positive cfg
                 \<and> js_gt (scores ! i) (Num 0.7))"
  proof
    assume "isChicken r"
    with dec i dom' lost' show "\<exists>i < length scores.
                 (\<forall>j < length scores. i < j \<longrightarrow> js_gt (scores ! i) (scores ! j))
                 \<and> (\<forall>k < i. \<exists>j. k < j \<and> j \<le> i \<and> \<not> js_gt (scores ! k) (scores ! j))
                 \<and> class_name (classes cfg) i = positive cfg
                 \<and> js_gt (scores ! i) (Num 0.7)"
      by blast
  next
    assume "\<exists>i < length scores.
                 (\<forall>j < length scores. i < j \<longrightarrow> js_gt (scores ! i) (scores ! j))
                 \<and> (\<forall>k < i. \<exists>j. k < j \<and> j \<le> i \<and> \<not> js_gt (scores ! k) (scores ! j))
                 \<and> class_name (classes cfg) i = positive cfg
                 \<and> js_gt (scores ! i) (Num 0.7)"
    then obtain i' where i': "i' < length scores"
      and d': "\<forall>j < length scores. i' < j \<longrightarrow> js_gt (scores ! i') (scores ! j)"
      and l': "\<forall>k < i'. \<exists>j. k < j \<and> j \<le> i' \<and> \<not> js_gt (scores ! k) (scores ! j)"
      and pos: "class_name (classes cfg) i' = positive cfg" "js_gt (scores ! i') (Num 0.7)"
      by blast
    have "i = i'"
      by (rule selected_unique[of "length scores" i "\<lambda>n. scores ! n" i',
            OF dom' l' d' lost' i i'])
    with pos dec show "isChicken r" by blast
  qed
  from det p1 p2 p3 p4 p5
  show "\<exists>r. detectChickensT cfg w d p = Inr r
         \<and> predictions r = pair_results (classes cfg) scores
         \<and> reduce better (pair_results (classes cfg) scores) = Inr (bestPrediction r)
         \<and> bestConfidence r = confidence (bestPrediction r)
         \<and> (isChicken r \<longleftrightarrow>
              class_label (bestPrediction r) = positive cfg
              \<and> js_gt (confidence (bestPrediction r)) (Num 0.7))
         \<and> (isChicken r \<longleftrightarrow>
              (\<exists>i < length scores.
                 (\<forall>j < length scores. i < j \<longrightarrow> js_gt (scores ! i) (scores ! j))
                 \<and> (\<forall>k < i. \<exists>j. k < j \<and> j \<le> i \<and> \<not> js_gt (scores ! k) (scores ! j))
                 \<and> class_name (classes cfg) i = positive cfg
                 \<and> js_gt (scores ! i) (Num 0.7)))"
    by (intro exI[of _ r] conjI)
next
  assume det: "detectChickensT cfg w d p = Inr r"
  then obtain m' img' pd where m: "model d = Some m'" and ex: "existsSync w p"
    and img: "jimp_read w p = Inr img'" and out: "m' (tensorT w img') = Inr pd"
    and int: "interpretT cfg pd = Inr r"
    by (rule detectChickensT_cases)
  from int obtain best where b: "reduce better (pair_results (classes cfg) pd) = Inr best"
    by (rule interpretT_cases)
  then have "pair_results (classes cfg) pd \<noteq> []"
    using reduce_Inr_iff[of better "pair_results (classes cfg) pd"] by blast
  then have "pd \<noteq> []" by (simp add: pair_results_empty_iff)
  with m ex img out
  show "\<exists>m img scores. model d = Some m \<and> existsSync w p \<and> jimp_read w p = Inr img
           \<and> m (tensorT w img) = Inr scores \<and> scores \<noteq> []"
    by blast
  from int show "isChicken r \<longleftrightarrow>
         class_label (bestPrediction r) = positive cfg
         \<and> js_gt (confidence (bestPrediction r)) (Num 0.7)"
    by (rule interpretT_cases) simp
  from int show "bestConfidence r = confidence (bestPrediction r)"
    by (rule interpretT_cases) simp
next
  show "positive labels_en = ''Chicken''" by (simp add: labels_en_def)
  show "positive labels_de = ''Huhn''" by (simp add: labels_de_def)
next
  assume a: "model d = Some m \<and> existsSync w p \<and> jimp_read w p = Inr img
        \<and> (\<forall>t. m t = Inr [Num 0.152, Num 0.848])"
  then have m: "model d = Some m" and ex: "existsSync w p" and img: "jimp_read w p = Inr img"
    and out: "m (tensorT w img) = Inr [Num 0.152, Num 0.848]"
    by blast+
  have "detectChickensT labels_en w d p = Inr scenario_b"
    unfolding detectChickensT_unfold[OF m ex img] out
    by (simp only: sum.case interpretT_scenario)
  moreover have "predictions scenario_b
      = [\<lparr>class_label = ''No Chicken'', confidence = Num 0.152\<rparr>,
         \<lparr>class_label = ''Chicken'', confidence = Num 0.848\<rparr>]"
    "bestPrediction scenario_b = \<lparr>class_label = ''Chicken'', confidence = Num 0.848\<rparr>"
    "isChicken scenario_b"
    by (simp_all add: scenario_b_def)
  ultimately show "\<exists>r. detectChickensT labels_en w d p = Inr r
         \<and> predictions r = [\<lparr>class_label = ''No Chicken'', confidence = Num 0.152\<rparr>,
                            \<lparr>class_label = ''Chicken'', confidence = Num 0.848\<rparr>]
         \<and> bestPrediction r = \<lparr>class_label = ''Chicken'', confidence = Num 0.848\<rparr>
         \<and> isChicken r"
    by blast
qed

theorem isChicken_iff_witness:
  "detectChickensT labels_en demo_world \<lparr>model = Some scenario_layers\<rparr> ''photos/a.JPG''
     = Inr scenario_b
   \<and> isChicken scenario_b
   \<and> class_label (bestPrediction scenario_b) = positive labels_en
   \<and> js_gt (confidence (bestPrediction scenario_b)) (Num 0.7)
   \<and> bestPrediction scenario_b = \<lparr>class_label = ''Chicken'', confidence = Num 0.848\<rparr>
   \<and> low_layers (tensorT demo_world tiny_bitmap) = Inr [Num 0.9, Num 0.1]
   \<and> detectChickensT labels_en demo_world \<lparr>model = Some low_layers\<rparr> ''photos/a.JPG''
     = Inr low_result
   \<and> reduce better (pair_results (classes labels_en) [Num 0.9, Num 0.1])
     = Inr (bestPrediction low_result)
   \<and> class_label (bestPrediction low_result) = ''No Chicken''
   \<and> \<not> isChicken low_result"
proof -
  note t = isChicken_iff[of "\<lparr>model = Some scenario_layers\<rparr>" scenario_layers demo_world
      "''photos/a.JPG''" tiny_bitmap "[Num 0.152, Num 0.848]" labels_en scenario_b]
  have dec: "isChicken scenario_b \<longleftrightarrow>
      class_label (bestPrediction scenario_b) = positive labels_en
      \<and> js_gt (confidence (bestPrediction scenario_b)) (Num 0.7)"
    using t[THEN conjunct2, THEN conjunct1, rule_format, OF detectChickensT_scenario,
        THEN conjunct2, THEN conjunct1] .
  have hyp: "model \<lparr>model = Some scenario_layers\<rparr> = Some scenario_layers
      \<and> existsSync demo_world ''photos/a.JPG''
      \<and> jimp_read demo_world ''photos/a.JPG'' = Inr tiny_bitmap
      \<and> (\<forall>t. scenario_layers t = Inr [Num 0.152, Num 0.848])"
    unfolding scenario_layers_def using demo_facts by simp
  from t[THEN conjunct2, THEN conjunct2, THEN conjunct2, THEN conjunct2, rule_format, OF hyp]
  obtain r where r: "detectChickensT labels_en demo_world \<lparr>model = Some scenario_layers\<rparr>
        ''photos/a.JPG'' = Inr r"
    and best: "bestPrediction r = \<lparr>class_label = ''Chicken'', confidence = Num 0.848\<rparr>"
    and chicken: "isChicken r"
    by blast
  from r have rb: "r = scenario_b" unfolding detectChickensT_scenario by simp
  have c: "isChicken scenario_b" using chicken unfolding rb .
  have b: "bestPrediction scenario_b = \<lparr>class_label = ''Chicken'', confidence = Num 0.848\<rparr>"
    using best unfolding rb .
  from dec c have pc: "class_label (bestPrediction scenario_b) = positive labels_en"
    "js_gt (confidence (bestPrediction scenario_b)) (Num 0.7)"
    by blast+
  have lo: "low_layers (tensorT demo_world tiny_bitmap) = Inr [Num 0.9, Num 0.1]"
    unfolding low_layers_def ..
  have hyp2: "model \<lparr>model = Some low_layers\<rparr> = Some low_layers
      \<and> existsSync demo_world ''photos/a.JPG''
      \<and> jimp_read demo_world ''photos/a.JPG'' = Inr tiny_bitmap
      \<and> low_layers (tensorT demo_world tiny_bitmap) = Inr [Num 0.9, Num 0.1]
      \<and> [Num 0.9, Num 0.1] \<noteq> []"
    using demo_facts lo by simp
  from isChicken_iff[THEN conjunct1, rule_format, OF hyp2, of labels_en]
  obtain r' where r': "detectChickensT labels_en demo_world \<lparr>model = Some low_layers\<rparr>
        ''photos/a.JPG'' = Inr r'"
    and red: "reduce better (pair_results (classes labels_en) [Num 0.9, Num 0.1])
        = Inr (bestPrediction r')"
    and dec': "isChicken r' \<longleftrightarrow> class_label (bestPrediction r') = positive labels_en
        \<and> js_gt (confidence (bestPrediction r')) (Num 0.7)"
    by blast
  from r' have rl: "r' = low_result" unfolding detectChickensT_low by simp
  have lbl: "class_label (bestPrediction low_result) = ''No Chicken''"
    by (simp add: low_result_def)
  have pos: "positive labels_en = ''Chicken''"
    using isChicken_iff[THEN conjunct2, THEN conjunct2, THEN conjunct1] .
  have nc: "\<not> isChicken low_result"
    using dec' unfolding rl lbl pos by simp
  have red': "reduce better (pair_results (classes labels_en) [Num 0.9, Num 0.1])
        = Inr (bestPrediction low_result)"
    using red unfolding rl .
  show ?thesis
    by (intro conjI detectChickensT_scenario c pc b lo detectChickensT_low red' lbl nc)
qed

text \<open>
  C10. When the model yields no score at all, the list of predictions is empty, the
  reduction has nothing to start from and throws, \<^verbatim>\<open>detectChickens\<close> fails with that
  error and \<^verbatim>\<open>processImage\<close> returns \<^verbatim>\<open>null\<close>. The reduction returns a value exactly on
  the non-empty lists, so a result of \<^verbatim>\<open>detectChickens\<close> never has an empty list of
  predictions.
\<close>

theorem empty_scores_throw:
  "(model d = Some m \<and> existsSync w p \<and> jimp_read w p = Inr img \<and> (\<forall>t. m t = Inr []) \<longrightarrow>
      detectChickensT cfg w d p = Inl ReduceOfEmptyArray \<and> processImageT cfg w d p = None)
   \<and> (reduce better rs = Inl ReduceOfEmptyArray \<longleftrightarrow> rs = [])
   \<and> ((\<exists>b. reduce better rs = Inr b) \<longleftrightarrow> rs \<noteq> [])
   \<and> (pair_results cs scores = [] \<longleftrightarrow> scores = [])
   \<and> (detectChickensT cfg w d p = Inr r \<longrightarrow> predictions r \<noteq> [])"
proof (intro conjI impI)
  assume "model d = Some m \<and> existsSync w p \<and> jimp_read w p = Inr img \<and> (\<forall>t. m t = Inr [])"
  then have m: "model d = Some m" and ex: "existsSync w p" and img: "jimp_read w p = Inr img"
    and out: "m (tensorT w img) = Inr []"
    by blast+
  show f: "detectChickensT cfg w d p = Inl ReduceOfEmptyArray"
    unfolding detectChickensT_unfold[OF m ex img] out
    by (simp only: sum.case interpretT_empty)
  show "processImageT cfg w d p = None"
    unfolding processImageT_def f by simp
next
  show "reduce better rs = Inl ReduceOfEmptyArray \<longleftrightarrow> rs = []" by (rule reduce_Inl_iff)
  show "(\<exists>b. reduce better rs = Inr b) \<longleftrightarrow> rs \<noteq> []" by (rule reduce_Inr_iff)
  show "pair_results cs scores = [] \<longleftrightarrow> scores = []" by (rule pair_results_empty_iff)
next
  assume "detectChickensT cfg w d p = Inr r"
  then obtain pd where int: "interpretT cfg pd = Inr r"
    by (rule detectChickensT_cases)
  from int obtain best where b: "reduce better (pair_results (classes cfg) pd) = Inr best"
    and p: "predictions r = pair_results (classes cfg) pd"
    by (rule interpretT_cases) simp
  from b have "pair_results (classes cfg) pd \<noteq> []"
    using reduce_Inr_iff[of better "pair_results (classes cfg) pd"] by blast
  then show "predictions r \<noteq> []" unfolding p .
qed

theorem empty_scores_throw_witness:
  "empty_layers (tensorT demo_world tiny_bitmap) = Inr []
   \<and> detectChickensT labels_en demo_world \<lparr>model = Some empty_layers\<rparr> ''photos/a.JPG''
       = Inl ReduceOfEmptyArray
   \<and> processImageT labels_en demo_world \<lparr>model = Some empty_layers\<rparr> ''photos/a.JPG'' = None
   \<and> detectChickensT labels_en demo_world \<lparr>model = Some scenario_layers\<rparr> ''photos/a.JPG''
       = Inr scenario_b
   \<and> predictions scenario_b \<noteq> []"
proof -
  note t = empty_scores_throw[of "\<lparr>model = Some empty_layers\<rparr>" empty_layers demo_world
      "''photos/a.JPG''" tiny_bitmap labels_en]
  have hyp: "model \<lparr>model = Some empty_layers\<rparr> = Some empty_layers
      \<and> existsSync demo_world ''photos/a.JPG''
      \<and> jimp_read demo_world ''photos/a.JPG'' = Inr tiny_bitmap
      \<and> (\<forall>t. empty_layers t = Inr [])"
    unfolding empty_layers_def using demo_facts by simp
  note f = t[THEN conjunct1, rule_format, OF hyp]
  have e: "empty_layers (tensorT demo_world tiny_bitmap) = Inr []"
    unfolding empty_layers_def ..
  have ne: "predictions scenario_b \<noteq> []"
    using empty_scores_throw[THEN conjunct2, THEN conjunct2, THEN conjunct2, THEN conjunct2,
        rule_format, OF detectChickensT_scenario] .
  show ?thesis using e f detectChickensT_scenario ne by (intro conjI) blast+
qed

text \<open>
  C7 (defect of the code). \<^verbatim>\<open>image.resize(224, 224)\<close> resizes the image it is
  called on, so \<^verbatim>\<open>resized\<close> and \<^verbatim>\<open>image\<close> are one object, and the
  \<^verbatim>\<open>image.bitmap.width\<close> and \<^verbatim>\<open>image.bitmap.height\<close> read for \<^verbatim>\<open>imageSize\<close> after
  the resize are those of the resized bitmap: every result of the binary
  \<^verbatim>\<open>detectChickens\<close> has the image size 224 by 224, whatever the dimensions of the
  loaded image were. The script prints that field as "Original image size".
\<close>

theorem imageSizeT_is_resized:
  "detectChickensT cfg w d p = Inr r \<Longrightarrow> imageSizeT r = (224, 224)"
proof -
  assume "detectChickensT cfg w d p = Inr r"
  then obtain pd where int: "interpretT cfg pd = Inr r"
    by (rule detectChickensT_cases)
  then show "imageSizeT r = (224, 224)"
    by (rule interpretT_cases) simp
qed

theorem imageSizeT_is_resized_witness:
  "jimp_read photo_world ''photos/a.JPG'' = Inr photo_bitmap
   \<and> width photo_bitmap = 800 \<and> height photo_bitmap = 600
   \<and> detectChickensT labels_en photo_world \<lparr>model = Some scenario_layers\<rparr> ''photos/a.JPG''
       = Inr scenario_b
   \<and> imageSizeT scenario_b = (224, 224)
   \<and> imageSizeT scenario_b \<noteq> (width photo_bitmap, height photo_bitmap)"
proof -
  have s: "imageSizeT scenario_b = (224, 224)"
    using imageSizeT_is_resized[OF detectChickensT_photo] .
  have wh: "width photo_bitmap = 800" "height photo_bitmap = 600"
    by (simp_all add: photo_bitmap_def)
  have ne: "imageSizeT scenario_b \<noteq> (width photo_bitmap, height photo_bitmap)"
    unfolding s wh by simp
  show ?thesis using photo_facts(2) wh detectChickensT_photo s ne by (intro conjI)
qed

section \<open>The directory filter is the extension test\<close>

lemma canonicalize_pattern_chars:
  "canonicalize CHR ''.'' = CHR ''.''"
  "canonicalize CHR ''j'' = CHR ''J''"
  "canonicalize CHR ''p'' = CHR ''P''"
  "canonicalize CHR ''e'' = CHR ''E''"
  "canonicalize CHR ''g'' = CHR ''G''"
  "canonicalize CHR ''n'' = CHR ''N''"
  "canonicalize CHR ''b'' = CHR ''B''"
  "canonicalize CHR ''m'' = CHR ''M''"
  "canonicalize CHR ''i'' = CHR ''I''"
  "canonicalize CHR ''f'' = CHR ''F''"
  by (simp_all add: canonicalize_def)

lemma rx_match_dot:
  "rx_match image_regex [] = []"
  "rx_match image_regex (a # t) =
     (if canonicalize a = CHR ''.'' then rx_match extension_regex t else [])"
  by (simp_all add: image_regex_def extension_regex_def canonicalize_pattern_chars)

lemma ext0: "rx_match extension_regex [] = []"
  by (simp add: extension_regex_def lits_def)

lemma ext1: "rx_match extension_regex [a] = []"
  by (simp add: extension_regex_def lits_def)

lemma ext2: "rx_match extension_regex [a, b] = []"
  by (simp add: extension_regex_def lits_def)

lemma ext3:
  "rx_match extension_regex [a, b, c] =
     (if map canonicalize [a, b, c] \<in> {''JPG'', ''PNG'', ''BMP'', ''GIF''} then [[]] else [])"
  by (simp add: extension_regex_def lits_def canonicalize_pattern_chars)

lemma ext4:
  "rx_match extension_regex [a, b, c, d] =
     (if map canonicalize [a, b, c, d] = ''JPEG'' then [[]] else [])"
  by (simp add: extension_regex_def lits_def canonicalize_pattern_chars)

lemma ext5: "rx_match extension_regex (a # b # c # d # e # r) = []"
  by (simp add: extension_regex_def lits_def canonicalize_pattern_chars)

lemma up_to_five:
  obtains "u = []" | a where "u = [a]" | a b where "u = [a, b]" | a b c where "u = [a, b, c]"
    | a b c d where "u = [a, b, c, d]" | a b c d e r where "u = a # b # c # d # e # r"
proof (cases u)
  case Nil
  then show ?thesis by (rule that(1))
next
  case u: (Cons a u1)
  show ?thesis
  proof (cases u1)
    case Nil
    with u show ?thesis by (intro that(2)) simp
  next
    case u1: (Cons b u2)
    show ?thesis
    proof (cases u2)
      case Nil
      with u u1 show ?thesis by (intro that(3)) simp
    next
      case u2: (Cons c u3)
      show ?thesis
      proof (cases u3)
        case Nil
        with u u1 u2 show ?thesis by (intro that(4)) simp
      next
        case u3: (Cons d u4)
        show ?thesis
        proof (cases u4)
          case Nil
          with u u1 u2 u3 show ?thesis by (intro that(5)) simp
        next
          case (Cons e r)
          with u u1 u2 u3 show ?thesis by (intro that(6)) simp
        qed
      qed
    qed
  qed
qed

lemma extension_match_iff:
  "rx_match extension_regex u \<noteq> [] \<longleftrightarrow>
     map canonicalize u \<in> {''JPG'', ''JPEG'', ''PNG'', ''BMP'', ''GIF''}"
proof (cases u rule: up_to_five)
  case 1
  then show ?thesis by (simp add: ext0)
next
  case (2 a)
  then show ?thesis by (simp add: ext1)
next
  case (3 a b)
  then show ?thesis by (simp add: ext2)
next
  case (4 a b c)
  show ?thesis unfolding 4 ext3 by simp
next
  case (5 a b c d)
  show ?thesis unfolding 5 ext4 by simp
next
  case (6 a b c d e r)
  show ?thesis unfolding 6 ext5 by simp
qed

lemma match_at_iff:
  "rx_match image_regex t \<noteq> [] \<longleftrightarrow>
     map canonicalize t \<in> set (map (map canonicalize) image_extensions)"
proof (cases t)
  case Nil
  then show ?thesis
    by (simp add: rx_match_dot image_extensions_def)
next
  case (Cons a u)
  have "rx_match image_regex t \<noteq> [] \<longleftrightarrow>
          canonicalize a = CHR ''.'' \<and> rx_match extension_regex u \<noteq> []"
    unfolding Cons rx_match_dot by simp
  also have "\<dots> \<longleftrightarrow> canonicalize a = CHR ''.''
      \<and> map canonicalize u \<in> {''JPG'', ''JPEG'', ''PNG'', ''BMP'', ''GIF''}"
    unfolding extension_match_iff ..
  also have "\<dots> \<longleftrightarrow> map canonicalize t \<in> set (map (map canonicalize) image_extensions)"
    unfolding Cons by (simp add: image_extensions_def canonicalize_pattern_chars) blast
  finally show ?thesis .
qed

lemma rx_test_iff: "rx_test image_regex name \<longleftrightarrow> has_image_extension name"
proof -
  let ?up = "map canonicalize"
  have "rx_test image_regex name \<longleftrightarrow>
          (\<exists>t. suffix t name \<and> ?up t \<in> set (map ?up image_extensions))"
    by (simp add: rx_test_def list_ex_iff match_at_iff Bex_def)
  also have "\<dots> \<longleftrightarrow> (\<exists>ext \<in> set image_extensions. suffix (?up ext) (?up name))"
  proof
    assume "\<exists>t. suffix t name \<and> ?up t \<in> set (map ?up image_extensions)"
    then obtain t ext where t: "suffix t name" and ext: "ext \<in> set image_extensions"
      and eq: "?up t = ?up ext"
      by auto
    from t have "suffix (?up t) (?up name)" by (rule map_mono_suffix)
    with ext eq show "\<exists>ext \<in> set image_extensions. suffix (?up ext) (?up name)" by auto
  next
    assume "\<exists>ext \<in> set image_extensions. suffix (?up ext) (?up name)"
    then obtain ext zs where ext: "ext \<in> set image_extensions"
      and eq: "?up name = zs @ ?up ext"
      by (auto simp: suffix_def)
    let ?t = "drop (length zs) name"
    have "?up ?t = drop (length zs) (?up name)" by (simp add: drop_map)
    also have "\<dots> = ?up ext" unfolding eq by simp
    finally have "?up ?t \<in> set (map ?up image_extensions)" using ext by auto
    moreover have "suffix ?t name" by (rule suffix_drop)
    ultimately show "\<exists>t. suffix t name \<and> ?up t \<in> set (map ?up image_extensions)" by blast
  qed
  also have "\<dots> \<longleftrightarrow> has_image_extension name"
    by (simp add: has_image_extension_def ends_with_ci_def list_ex_iff)
  finally show ?thesis .
qed

lemma image_files_eq:
  "image_files w dir entries = map (path_join w dir) (filter has_image_extension entries)"
proof -
  have "rx_test image_regex = has_image_extension"
    by (rule ext) (rule rx_test_iff)
  then show ?thesis by (simp add: image_files_def)
qed

text \<open>
  C8. The pattern of the directory filter accepts a name exactly when the name ends in
  .jpg, .jpeg, .png, .bmp or .gif, letters compared without regard to case. For a
  directory argument both scripts hand to the batch the accepted entries, joined to the
  directory, in the order of the listing; when no entry is accepted no batch is run and
  the outcome is the report that no image files were found.
\<close>

theorem directory_filter:
  "(rx_test image_regex name \<longleftrightarrow> has_image_extension name)
   \<and> (load = Inr m \<and> argv_at argv 2 = Some dir \<and> dir \<noteq> []
        \<and> lstat_isDirectory w dir = Inr True \<and> readdirSync w dir = Inr entries \<longrightarrow>
      main w load argv =
        (if filter has_image_extension entries = [] then NoImageFiles
         else BatchDone (processMultipleImages w \<lparr>model = Some m\<rparr>
                (map (path_join w dir) (filter has_image_extension entries)))))
   \<and> (loadT (model_url argv) = Inr mT \<and> argv_at argv 2 = Some dir \<and> dir \<noteq> []
        \<and> lstat_isDirectory w dir = Inr True \<and> readdirSync w dir = Inr entries \<longrightarrow>
      mainT cfg w loadT argv =
        (if filter has_image_extension entries = [] then NoImageFiles
         else BatchDone (processMultipleImagesT cfg w \<lparr>model = Some mT\<rparr>
                (map (path_join w dir) (filter has_image_extension entries)))))"
proof (intro conjI impI)
  show "rx_test image_regex name \<longleftrightarrow> has_image_extension name" by (rule rx_test_iff)
next
  assume "load = Inr m \<and> argv_at argv 2 = Some dir \<and> dir \<noteq> []
        \<and> lstat_isDirectory w dir = Inr True \<and> readdirSync w dir = Inr entries"
  then show "main w load argv =
        (if filter has_image_extension entries = [] then NoImageFiles
         else BatchDone (processMultipleImages w \<lparr>model = Some m\<rparr>
                (map (path_join w dir) (filter has_image_extension entries))))"
    by (simp add: main_def image_files_eq)
next
  assume "loadT (model_url argv) = Inr mT \<and> argv_at argv 2 = Some dir \<and> dir \<noteq> []
        \<and> lstat_isDirectory w dir = Inr True \<and> readdirSync w dir = Inr entries"
  then show "mainT cfg w loadT argv =
        (if filter has_image_extension entries = [] then NoImageFiles
         else BatchDone (processMultipleImagesT cfg w \<lparr>model = Some mT\<rparr>
                (map (path_join w dir) (filter has_image_extension entries))))"
    by (simp add: mainT_def image_files_eq)
qed

lemma demo_listing:
  "filter has_image_extension [''a.JPG'', ''readme.txt'', ''notes.png''] = [''a.JPG'', ''notes.png'']"
  "filter has_image_extension [''readme.txt'', ''jpg'', ''old.jpg.bak''] = []"
  by (simp_all add: has_image_extension_def ends_with_ci_def image_extensions_def
      canonicalize_def suffix_to_prefix)

lemma processImage_notes:
  "processImage demo_world demo_detector ''photos/notes.png'' = None"
  by (simp add: processImage_def detectChickens_def demo_world_def demo_detector_def)

lemma demo_batch:
  "processMultipleImages demo_world \<lparr>model = Some scenario_coco\<rparr>
     [''photos/a.JPG'', ''photos/notes.png'']
   = \<lparr>results = [(''photos/a.JPG'', scenario_a)], totalChickens = 2\<rparr>"
  unfolding processMultipleImages_def fold_batch_step
  by (simp add: succeeded_def processImage_a[unfolded demo_detector_def]
      processImage_notes[unfolded demo_detector_def] scenario_a_def)

theorem directory_filter_witness:
  "main demo_world (Inr scenario_coco) [''node'', ''chicken-count.js'', ''photos'']
     = BatchDone \<lparr>results = [(''photos/a.JPG'', scenario_a)], totalChickens = 2\<rparr>
   \<and> main demo_world (Inr scenario_coco) [''node'', ''chicken-count.js'', ''docs'']
     = NoImageFiles
   \<and> rx_test image_regex ''a.JPG'' \<and> \<not> rx_test image_regex ''old.jpg.bak''"
proof -
  have h1: "Inr scenario_coco = Inr scenario_coco
      \<and> argv_at [''node'', ''chicken-count.js'', ''photos''] 2 = Some ''photos'' \<and> ''photos'' \<noteq> []
      \<and> lstat_isDirectory demo_world ''photos'' = Inr True
      \<and> readdirSync demo_world ''photos'' = Inr [''a.JPG'', ''readme.txt'', ''notes.png'']"
    by (simp add: argv_at_def demo_world_def)
  have h2: "Inr scenario_coco = Inr scenario_coco
      \<and> argv_at [''node'', ''chicken-count.js'', ''docs''] 2 = Some ''docs'' \<and> ''docs'' \<noteq> []
      \<and> lstat_isDirectory demo_world ''docs'' = Inr True
      \<and> readdirSync demo_world ''docs'' = Inr [''readme.txt'', ''jpg'', ''old.jpg.bak'']"
    by (simp add: argv_at_def demo_world_def)
  have j: "map (path_join demo_world ''photos'') [''a.JPG'', ''notes.png'']
             = [''photos/a.JPG'', ''photos/notes.png'']"
    by (simp add: demo_world_def)
  have m1: "main demo_world (Inr scenario_coco) [''node'', ''chicken-count.js'', ''photos'']
     = BatchDone \<lparr>results = [(''photos/a.JPG'', scenario_a)], totalChickens = 2\<rparr>"
    using directory_filter[THEN conjunct2, THEN conjunct1, rule_format, OF h1]
    unfolding demo_listing j demo_batch by simp
  have m2: "main demo_world (Inr scenario_coco) [''node'', ''chicken-count.js'', ''docs'']
     = NoImageFiles"
    using directory_filter[THEN conjunct2, THEN conjunct1, rule_format, OF h2]
    unfolding demo_listing by simp
  have "has_image_extension ''a.JPG''" "\<not> has_image_extension ''old.jpg.bak''"
    by (simp_all add: has_image_extension_def ends_with_ci_def image_extensions_def
        canonicalize_def suffix_to_prefix)
  then have r: "rx_test image_regex ''a.JPG''" "\<not> rx_test image_regex ''old.jpg.bak''"
    unfolding directory_filter[THEN conjunct1] .
  show ?thesis by (intro conjI m1 m2 r)
qed

end
